theory Spec2Isabelle
  imports Main
begin

section \<open>Scheduling flow runs for a deployment (prefect/orion/models/deployments.py)\<close>

text \<open>
  The embedding covers \<open>schedule_runs\<close>, \<open>_generate_scheduled_flow_runs\<close> and
  \<open>_insert_scheduled_flow_runs\<close>. The database session is an explicit state: three
  tables, the list of statements executed on it, and the position of the \<open>uuid4\<close>
  generator. Every function returns its result (or the exception it raises) together
  with the session it leaves behind.
\<close>

subsection \<open>Data\<close>

text \<open>
  A UUID is a natural number and \<open>uuid4()\<close> hands out the numbers in turn, so that it
  never returns the same value twice. A timestamp is an integer on a fixed time axis and
  a duration is a difference of timestamps.
\<close>

type_synonym UUID = nat
type_synonym datetime = int
type_synonym duration = int

datatype StateType = SCHEDULED | PENDING | RUNNING | COMPLETED | FAILED | CANCELLED

text \<open>\<open>schemas.states.Scheduled(scheduled_time=date, message=...)\<close>: the state payload.\<close>

record State =
  st_type :: StateType
  st_message :: string
  st_scheduled_time :: datetime

text \<open>
  A schedule is the capability \<open>get_dates(n, start, end)\<close>; its implementations are
  not part of this module.
\<close>

type_synonym schedule = "int \<Rightarrow> datetime \<Rightarrow> datetime \<Rightarrow> datetime list"

record Deployment =
  d_id :: UUID
  d_flow_id :: "UUID option"
  d_schedule :: "schedule option"
  d_is_schedule_active :: bool
  d_tags :: "string list"
  d_parameters :: "(string \<times> string) list"

text \<open>\<open>schemas.core.FlowRun\<close> with the fields that the generator sets.\<close>

record FlowRun =
  r_id :: UUID
  r_flow_id :: UUID
  r_deployment_id :: UUID
  r_parameters :: "(string \<times> string) list"
  r_idempotency_key :: string
  r_tags :: "string list"
  r_auto_scheduled :: bool
  r_state :: State
  r_state_type :: StateType
  r_next_scheduled_start_time :: datetime
  r_expected_start_time :: datetime

text \<open>A row of the flow run table: the run and its \<open>state_id\<close> column.\<close>

record FlowRun_row =
  row_run :: FlowRun
  row_state_id :: "UUID option"

text \<open>
  A row of the flow run state table:
  \<open>{"id": uuid4(), "flow_run_id": r.id, **r.state.dict()}\<close>.
\<close>

record FlowRunState_row =
  s_id :: UUID
  s_flow_run_id :: UUID
  s_state :: State

datatype statement =
  GetDeployment | InsertFlowRuns | SelectInserted | InsertFlowRunStates | SetStateId

record session =
  deployment_table :: "Deployment list"
  flow_run_table :: "FlowRun_row list"
  flow_run_state_table :: "FlowRunState_row list"
  executed :: "statement list"
  uuid4_next :: UUID

datatype error = InvalidDeploymentState | IntegrityError

text \<open>
  What the module reads from its process: the two settings
  \<open>prefect.settings.orion.services.scheduler_max_runs\<close> and
  \<open>scheduler_max_scheduled_time\<close>, the clock \<open>pendulum.now("UTC")\<close>, and the string
  renderings of a UUID and of a timestamp that the f-string of the idempotency key uses.
\<close>

record env =
  scheduler_max_runs :: int
  scheduler_max_scheduled_time :: duration
  now_utc :: datetime
  str_UUID :: "UUID \<Rightarrow> string"
  str_DateTime :: "datetime \<Rightarrow> string"

subsection \<open>The storage operations\<close>

definition uuid4 :: "session \<Rightarrow> UUID \<times> session" where
  "uuid4 s = (uuid4_next s, s\<lparr>uuid4_next := Suc (uuid4_next s)\<rparr>)"

definition log_statement :: "statement \<Rightarrow> session \<Rightarrow> session" where
  "log_statement q s = s\<lparr>executed := executed s @ [q]\<rparr>"

text \<open>\<open>session.get(db_config.Deployment, deployment_id)\<close>: the lookup by primary key.\<close>

definition session_get :: "session \<Rightarrow> UUID \<Rightarrow> Deployment option \<times> session" where
  "session_get s deployment_id =
     (find (\<lambda>d. d_id d = deployment_id) (deployment_table s), log_statement GetDeployment s)"

text \<open>
  Modelled from the spec: \<open>db_config.flow_run_unique_upsert_columns\<close>, which this module
  only names. The spec keys the conflict policy of the batch write on the idempotency
  key.
\<close>

definition flow_run_unique_upsert_columns :: "FlowRun \<Rightarrow> string" where
  "flow_run_unique_upsert_columns r = r_idempotency_key r"

text \<open>
  \<open>insert.on_conflict_do_nothing(index_elements=...)\<close> executed with a list of rows. A
  row whose unique columns are already in the table (or earlier in the batch) is skipped;
  a row that passes but repeats a primary key violates the key, and the statement
  raises without inserting anything.
\<close>

fun on_conflict_do_nothing :: "FlowRun_row list \<Rightarrow> FlowRun list \<Rightarrow> error + FlowRun_row list" where
  "on_conflict_do_nothing table [] = Inr table"
| "on_conflict_do_nothing table (r # rs) =
     (if list_ex (\<lambda>row. flow_run_unique_upsert_columns (row_run row) =
                         flow_run_unique_upsert_columns r) table
      then on_conflict_do_nothing table rs
      else if list_ex (\<lambda>row. r_id (row_run row) = r_id r) table
      then Inl IntegrityError
      else on_conflict_do_nothing (table @ [\<lparr>row_run = r, row_state_id = None\<rparr>]) rs)"

definition execute_insert_flow_runs :: "session \<Rightarrow> FlowRun list \<Rightarrow> (error + unit) \<times> session" where
  "execute_insert_flow_runs s runs =
     (case on_conflict_do_nothing (flow_run_table s) runs of
        Inl e \<Rightarrow> (Inl e, log_statement InsertFlowRuns s)
      | Inr table \<Rightarrow> (Inr (), log_statement InsertFlowRuns (s\<lparr>flow_run_table := table\<rparr>)))"

text \<open>
  The query \<open>inserted_rows\<close>: the ids of the flow runs among \<open>runs\<close> that the outer join
  pairs with no flow run state.
\<close>

definition inserted_rows :: "session \<Rightarrow> FlowRun list \<Rightarrow> UUID list" where
  "inserted_rows s runs =
     map (\<lambda>row. r_id (row_run row))
       (filter (\<lambda>row. r_id (row_run row) \<in> set (map r_id runs) \<and>
                      \<not> list_ex (\<lambda>st. s_flow_run_id st = r_id (row_run row))
                          (flow_run_state_table s))
          (flow_run_table s))"

definition execute_inserted_rows :: "session \<Rightarrow> FlowRun list \<Rightarrow> UUID list \<times> session" where
  "execute_inserted_rows s runs = (inserted_rows s runs, log_statement SelectInserted s)"

text \<open>The comprehension \<open>insert_flow_run_states\<close>, which draws one \<open>uuid4()\<close> per row.\<close>

fun insert_flow_run_states :: "FlowRun list \<Rightarrow> UUID list \<Rightarrow> session \<Rightarrow> FlowRunState_row list \<times> session" where
  "insert_flow_run_states [] ids s = ([], s)"
| "insert_flow_run_states (r # rs) ids s =
     (if r_id r \<in> set ids
      then (case uuid4 s of (u, s') \<Rightarrow>
              (case insert_flow_run_states rs ids s' of (sts, s'') \<Rightarrow>
                 (\<lparr>s_id = u, s_flow_run_id = r_id r, s_state = r_state r\<rparr> # sts, s'')))
      else insert_flow_run_states rs ids s)"

text \<open>
  \<open>db_config.FlowRunState.__table__.insert()\<close> executed with a list of rows: a plain
  insert, which raises on a repeated primary key.
\<close>

definition execute_insert_states :: "session \<Rightarrow> FlowRunState_row list \<Rightarrow> (error + unit) \<times> session" where
  "execute_insert_states s sts =
     (if distinct (map s_id sts) \<and>
         list_all (\<lambda>st. s_id st \<notin> set (map s_id (flow_run_state_table s))) sts
      then (Inr (), log_statement InsertFlowRunStates
                      (s\<lparr>flow_run_state_table := flow_run_state_table s @ sts\<rparr>))
      else (Inl IntegrityError, log_statement InsertFlowRunStates s))"

text \<open>
  Modelled from the spec: \<open>db_config.set_state_id_on_inserted_flow_runs_statement\<close>,
  which this module only calls. The spec has the linker update the current-state pointer
  of each newly created run to reference the state record written for it.
\<close>

definition set_state_id_on_inserted_flow_runs ::
    "UUID list \<Rightarrow> FlowRunState_row list \<Rightarrow> FlowRun_row list \<Rightarrow> FlowRun_row list" where
  "set_state_id_on_inserted_flow_runs inserted_flow_run_ids sts table =
     map (\<lambda>row.
            if r_id (row_run row) \<in> set inserted_flow_run_ids
            then (case find (\<lambda>st. s_flow_run_id st = r_id (row_run row)) sts of
                    Some st \<Rightarrow> row\<lparr>row_state_id := Some (s_id st)\<rparr>
                  | None \<Rightarrow> row)
            else row) table"

definition execute_set_state_id :: "session \<Rightarrow> UUID list \<Rightarrow> FlowRunState_row list \<Rightarrow> session" where
  "execute_set_state_id s inserted_flow_run_ids sts =
     log_statement SetStateId
       (s\<lparr>flow_run_table :=
            set_state_id_on_inserted_flow_runs inserted_flow_run_ids sts (flow_run_table s)\<rparr>)"

subsection \<open>The module's functions\<close>

text \<open>
  Modelled from the spec: the constructor of \<open>schemas.core.FlowRun\<close>, whose class is not
  part of this module. It generates the id of the run, and the spec has it fail with
  \<open>InvalidDeploymentState\<close> when the deployment lacks a \<open>flow_id\<close>.
\<close>

definition new_FlowRun ::
    "UUID option \<Rightarrow> UUID \<Rightarrow> (string \<times> string) list \<Rightarrow> string \<Rightarrow> string list \<Rightarrow> bool \<Rightarrow>
     State \<Rightarrow> StateType \<Rightarrow> datetime \<Rightarrow> datetime \<Rightarrow> session \<Rightarrow> (error + FlowRun) \<times> session" where
  "new_FlowRun flow_id deployment_id parameters idempotency_key tags auto_scheduled state
       state_type next_scheduled_start_time expected_start_time s =
     (case flow_id of
        None \<Rightarrow> (Inl InvalidDeploymentState, s)
      | Some f \<Rightarrow>
          (case uuid4 s of (u, s') \<Rightarrow>
             (Inr \<lparr>r_id = u, r_flow_id = f, r_deployment_id = deployment_id,
                   r_parameters = parameters, r_idempotency_key = idempotency_key,
                   r_tags = tags, r_auto_scheduled = auto_scheduled, r_state = state,
                   r_state_type = state_type,
                   r_next_scheduled_start_time = next_scheduled_start_time,
                   r_expected_start_time = expected_start_time\<rparr>, s')))"

text \<open>
  Modelled from the spec: the constructor \<open>schemas.states.Scheduled\<close>, whose class is
  not part of this module. The spec gives the initial state of a run the kind
  \<open>SCHEDULED\<close>, the message and the scheduled timestamp.
\<close>

definition Scheduled :: "datetime \<Rightarrow> string \<Rightarrow> State" where
  "Scheduled scheduled_time message =
     \<lparr>st_type = SCHEDULED, st_message = message, st_scheduled_time = scheduled_time\<rparr>"

text \<open>The f-string \<open>f"scheduled {deployment.id} {date}"\<close>.\<close>

definition idempotency_key :: "env \<Rightarrow> Deployment \<Rightarrow> datetime \<Rightarrow> string" where
  "idempotency_key e deployment date =
     ''scheduled '' @ str_UUID e (d_id deployment) @ '' '' @ str_DateTime e date"

text \<open>The body of the loop \<open>for date in dates\<close>: the run built for one date.\<close>

definition build_run :: "env \<Rightarrow> Deployment \<Rightarrow> UUID \<Rightarrow> datetime \<Rightarrow> session \<Rightarrow> (error + FlowRun) \<times> session" where
  "build_run e deployment deployment_id date s =
     new_FlowRun (d_flow_id deployment) deployment_id (d_parameters deployment)
       (idempotency_key e deployment date) (''auto-scheduled'' # d_tags deployment) True
       (Scheduled date ''Flow run scheduled'') SCHEDULED date date s"

fun build_runs ::
    "env \<Rightarrow> Deployment \<Rightarrow> UUID \<Rightarrow> datetime list \<Rightarrow> FlowRun list \<Rightarrow> session \<Rightarrow>
     (error + FlowRun list) \<times> session" where
  "build_runs e deployment deployment_id [] runs s = (Inr runs, s)"
| "build_runs e deployment deployment_id (date # dates) runs s =
     (case build_run e deployment deployment_id date s of
        (Inl err, s') \<Rightarrow> (Inl err, s')
      | (Inr run, s') \<Rightarrow> build_runs e deployment deployment_id dates (runs @ [run]) s')"

definition generate_scheduled_flow_runs ::
    "env \<Rightarrow> session \<Rightarrow> UUID \<Rightarrow> datetime \<Rightarrow> datetime \<Rightarrow> int \<Rightarrow> (error + FlowRun list) \<times> session" where
  "generate_scheduled_flow_runs e s deployment_id start_time end_time max_runs =
     (case session_get s deployment_id of
        (None, s') \<Rightarrow> (Inr [], s')
      | (Some deployment, s') \<Rightarrow>
          (case d_schedule deployment of
             None \<Rightarrow> (Inr [], s')
           | Some sched \<Rightarrow>
               if \<not> d_is_schedule_active deployment then (Inr [], s')
               else build_runs e deployment deployment_id
                      (sched max_runs start_time end_time) [] s'))"

definition insert_scheduled_flow_runs :: "session \<Rightarrow> FlowRun list \<Rightarrow> (error + FlowRun list) \<times> session" where
  "insert_scheduled_flow_runs s runs =
     (if runs = [] then (Inr [], s)
      else
        (case execute_insert_flow_runs s runs of
           (Inl err, s1) \<Rightarrow> (Inl err, s1)
         | (Inr _, s1) \<Rightarrow>
             (case execute_inserted_rows s1 runs of (inserted_flow_run_ids, s2) \<Rightarrow>
                (case insert_flow_run_states runs inserted_flow_run_ids s2 of (sts, s3) \<Rightarrow>
                   if sts = []
                   then (Inr (filter (\<lambda>r. r_id r \<in> set inserted_flow_run_ids) runs), s3)
                   else
                     (case execute_insert_states s3 sts of
                        (Inl err, s4) \<Rightarrow> (Inl err, s4)
                      | (Inr _, s4) \<Rightarrow>
                          (Inr (filter (\<lambda>r. r_id r \<in> set inserted_flow_run_ids) runs),
                           execute_set_state_id s4 inserted_flow_run_ids sts))))))"

definition schedule_runs ::
    "env \<Rightarrow> session \<Rightarrow> UUID \<Rightarrow> datetime option \<Rightarrow> datetime option \<Rightarrow> int option \<Rightarrow>
     (error + FlowRun list) \<times> session" where
  "schedule_runs e s deployment_id start_time end_time max_runs =
     (let max_runs' = (case max_runs of None \<Rightarrow> scheduler_max_runs e | Some m \<Rightarrow> m);
          start_time' = (case start_time of None \<Rightarrow> now_utc e | Some t \<Rightarrow> t);
          end_time' = (case end_time of
                         None \<Rightarrow> start_time' + scheduler_max_scheduled_time e
                       | Some t \<Rightarrow> t)
      in (case generate_scheduled_flow_runs e s deployment_id start_time' end_time' max_runs' of
            (Inl err, s') \<Rightarrow> (Inl err, s')
          | (Inr runs, s') \<Rightarrow> insert_scheduled_flow_runs s' runs))"

subsection \<open>Auxiliary notions for the proofs\<close>

text \<open>
  The ids stored in the session are all older than the next value of \<open>uuid4()\<close>:
  every stored id was drawn earlier, so that the generator cannot yield it again.
\<close>

definition uuids_fresh :: "session \<Rightarrow> bool" where
  "uuids_fresh s =
     (list_all (\<lambda>row. r_id (row_run row) < uuid4_next s) (flow_run_table s) \<and>
      list_all (\<lambda>st. s_id st < uuid4_next s \<and> s_flow_run_id st < uuid4_next s)
        (flow_run_state_table s))"

text \<open>
  The ids of a list of candidates are freshly generated: pairwise distinct, carried by no
  stored flow run and referenced by no stored state.
\<close>

definition candidates_fresh :: "session \<Rightarrow> FlowRun list \<Rightarrow> bool" where
  "candidates_fresh s runs =
     (distinct (map r_id runs) \<and>
      list_all (\<lambda>r. r_id r \<notin> set (map (\<lambda>row. r_id (row_run row)) (flow_run_table s)) \<and>
                    r_id r \<notin> set (map s_flow_run_id (flow_run_state_table s))) runs \<and>
      list_all (\<lambda>st. s_id st < uuid4_next s) (flow_run_state_table s))"

definition stored_keys :: "session \<Rightarrow> string list" where
  "stored_keys s = map (\<lambda>row. r_idempotency_key (row_run row)) (flow_run_table s)"

text \<open>
  The candidates that a conflict-ignoring insert adds to a table holding the keys \<open>ks\<close>:
  the first candidate of each key that is not yet there.
\<close>

fun accepted :: "string list \<Rightarrow> FlowRun list \<Rightarrow> FlowRun list" where
  "accepted ks [] = []"
| "accepted ks (r # rs) =
     (if r_idempotency_key r \<in> set ks then accepted ks rs
      else r # accepted (ks @ [r_idempotency_key r]) rs)"

text \<open>The run that the loop builds for flow \<open>f\<close> and one date, with the id \<open>u\<close>.\<close>

definition run_of :: "env \<Rightarrow> Deployment \<Rightarrow> UUID \<Rightarrow> UUID \<Rightarrow> UUID \<times> datetime \<Rightarrow> FlowRun" where
  "run_of e deployment f deployment_id ud =
     \<lparr>r_id = fst ud, r_flow_id = f, r_deployment_id = deployment_id,
      r_parameters = d_parameters deployment,
      r_idempotency_key = idempotency_key e deployment (snd ud),
      r_tags = ''auto-scheduled'' # d_tags deployment, r_auto_scheduled = True,
      r_state = Scheduled (snd ud) ''Flow run scheduled'', r_state_type = SCHEDULED,
      r_next_scheduled_start_time = snd ud, r_expected_start_time = snd ud\<rparr>"

definition linked_row :: "FlowRun \<times> UUID \<Rightarrow> FlowRun_row" where
  "linked_row p = \<lparr>row_run = fst p, row_state_id = Some (snd p)\<rparr>"

definition state_row :: "FlowRun \<times> UUID \<Rightarrow> FlowRunState_row" where
  "state_row p = \<lparr>s_id = snd p, s_flow_run_id = r_id (fst p), s_state = r_state (fst p)\<rparr>"

text \<open>Reading a flow run and a flow run state by primary key.\<close>

definition read_flow_run :: "session \<Rightarrow> UUID \<Rightarrow> FlowRun_row option" where
  "read_flow_run s i = find (\<lambda>row. r_id (row_run row) = i) (flow_run_table s)"

definition read_flow_run_state :: "session \<Rightarrow> UUID \<Rightarrow> FlowRunState_row option" where
  "read_flow_run_state s i = find (\<lambda>st. s_id st = i) (flow_run_state_table s)"

text \<open>
  The session after the candidates \<open>A\<close> have been inserted and linked to their states,
  the state of the i-th candidate taking the i-th id that \<open>uuid4()\<close> yields.
\<close>

definition persisted :: "session \<Rightarrow> FlowRun list \<Rightarrow> session" where
  "persisted s A =
     s\<lparr>flow_run_table := flow_run_table s @
          map linked_row (zip A [uuid4_next s ..< uuid4_next s + length A]),
       flow_run_state_table := flow_run_state_table s @
          map state_row (zip A [uuid4_next s ..< uuid4_next s + length A]),
       executed := executed s @ [InsertFlowRuns, SelectInserted] @
          (if A = [] then [] else [InsertFlowRunStates, SetStateId]),
       uuid4_next := uuid4_next s + length A\<rparr>"

text \<open>The candidates that the loop builds for a list of dates, drawing ids from \<open>u\<close> on.\<close>

definition candidates :: "env \<Rightarrow> Deployment \<Rightarrow> UUID \<Rightarrow> UUID \<Rightarrow> UUID \<Rightarrow> datetime list \<Rightarrow> FlowRun list" where
  "candidates e deployment f deployment_id u dates =
     map (run_of e deployment f deployment_id) (zip [u ..< u + length dates] dates)"

text \<open>The window and the cap after \<open>schedule_runs\<close> has filled in its defaults.\<close>

definition max_runs_of :: "env \<Rightarrow> int option \<Rightarrow> int" where
  "max_runs_of e max_runs = (case max_runs of None \<Rightarrow> scheduler_max_runs e | Some m \<Rightarrow> m)"

definition start_of :: "env \<Rightarrow> datetime option \<Rightarrow> datetime" where
  "start_of e start_time = (case start_time of None \<Rightarrow> now_utc e | Some t \<Rightarrow> t)"

definition end_of :: "env \<Rightarrow> datetime option \<Rightarrow> datetime option \<Rightarrow> datetime" where
  "end_of e start_time end_time =
     (case end_time of
        None \<Rightarrow> start_of e start_time + scheduler_max_scheduled_time e
      | Some t \<Rightarrow> t)"

text \<open>The dates that the schedule of a deployment yields for the arguments of a call.\<close>

definition dates_of ::
    "env \<Rightarrow> Deployment \<Rightarrow> datetime option \<Rightarrow> datetime option \<Rightarrow> int option \<Rightarrow> datetime list" where
  "dates_of e deployment start_time end_time max_runs =
     (case d_schedule deployment of
        None \<Rightarrow> []
      | Some sched \<Rightarrow>
          sched (max_runs_of e max_runs) (start_of e start_time) (end_of e start_time end_time))"

subsection \<open>A concrete deployment\<close>

text \<open>
  A deployment whose schedule fires at the times 0, 1 and 2, in a store with no runs, as
  in the example of the specification.
\<close>

definition example_env :: env where
  "example_env =
     \<lparr>scheduler_max_runs = 100, scheduler_max_scheduled_time = 100, now_utc = 0,
      str_UUID = (\<lambda>u. replicate u (CHR ''u'')),
      str_DateTime = (\<lambda>t. replicate (nat t) (CHR ''t''))\<rparr>"

definition example_schedule :: schedule where
  "example_schedule n start_time end_time =
     take (nat n) (filter (\<lambda>t. start_time \<le> t \<and> t < end_time) [0, 1, 2])"

definition example_deployment :: Deployment where
  "example_deployment =
     \<lparr>d_id = 1, d_flow_id = Some 0, d_schedule = Some example_schedule,
      d_is_schedule_active = True, d_tags = [''nightly''], d_parameters = [(''x'', ''1'')]\<rparr>"

definition example_session :: session where
  "example_session =
     \<lparr>deployment_table = [example_deployment], flow_run_table = [],
      flow_run_state_table = [], executed = [], uuid4_next = 2\<rparr>"

text \<open>
  The candidates of a second, overlapping window: after a call over the window from 0 to
  2 has stored the runs of the dates 0 and 1, the generator is run over the window from
  1 to 3.
\<close>

definition example_overlap :: "(error + FlowRun list) \<times> session" where
  "example_overlap =
     generate_scheduled_flow_runs example_env
       (snd (schedule_runs example_env example_session 1 (Some 0) (Some 2) (Some 10))) 1 1 3 10"

text \<open>
  Candidates that are already stored but have no state: the candidates generated for the
  window from 0 to 3, and the session after the insert statement alone has been executed
  with them.
\<close>

definition example_generated :: "(error + FlowRun list) \<times> session" where
  "example_generated = generate_scheduled_flow_runs example_env example_session 1 0 3 10"

definition example_stored_stateless :: session where
  "example_stored_stateless =
     snd (execute_insert_flow_runs (snd example_generated) (projr (fst example_generated)))"

section \<open>Properties\<close>

subsection \<open>The loop, the conflict-ignoring insert and the probe\<close>

lemma build_run_Some:
  "d_flow_id d = Some f \<Longrightarrow>
   build_run e d did date s =
     (Inr (run_of e d f did (uuid4_next s, date)), s\<lparr>uuid4_next := Suc (uuid4_next s)\<rparr>)"
  by (simp add: build_run_def new_FlowRun_def uuid4_def run_of_def)

lemma build_run_None:
  "d_flow_id d = None \<Longrightarrow> build_run e d did date s = (Inl InvalidDeploymentState, s)"
  by (simp add: build_run_def new_FlowRun_def)

lemma build_runs_Some:
  "d_flow_id d = Some f \<Longrightarrow>
   build_runs e d did dates acc s =
     (Inr (acc @ map (run_of e d f did)
                  (zip [uuid4_next s ..< uuid4_next s + length dates] dates)),
      s\<lparr>uuid4_next := uuid4_next s + length dates\<rparr>)"
proof (induction dates arbitrary: acc s)
  case Nil
  then show ?case by simp
next
  case (Cons date dates)
  have upt: "[uuid4_next s ..< uuid4_next s + length (date # dates)] =
             uuid4_next s # [Suc (uuid4_next s) ..< Suc (uuid4_next s) + length dates]"
    by (simp add: upt_conv_Cons del: upt_Suc)
  show ?case
    using Cons.prems
    by (simp only: build_runs.simps build_run_Some [OF Cons.prems] Cons.IH [OF Cons.prems] upt)
       simp
qed

lemma build_runs_None:
  "d_flow_id d = None \<Longrightarrow> dates \<noteq> [] \<Longrightarrow>
   build_runs e d did dates acc s = (Inl InvalidDeploymentState, s)"
  by (cases dates) (simp_all add: build_run_None)

lemma accepted_subset: "set (accepted ks runs) \<subseteq> set runs"
  by (induction runs arbitrary: ks) auto

lemma accepted_distinct:
  "distinct (map r_id runs) \<Longrightarrow> distinct (map r_id (accepted ks runs))"
proof (induction runs arbitrary: ks)
  case Nil
  then show ?case by simp
next
  case (Cons r rs)
  have "r_id r \<notin> r_id ` set (accepted (ks @ [r_idempotency_key r]) rs)"
    using Cons.prems accepted_subset [of "ks @ [r_idempotency_key r]" rs] by auto
  with Cons show ?case by simp
qed

lemma accepted_keys:
  "set ks \<union> set (map r_idempotency_key (accepted ks runs)) =
   set ks \<union> set (map r_idempotency_key runs)"
proof (induction runs arbitrary: ks)
  case Nil
  then show ?case by simp
next
  case (Cons a rs)
  show ?case
  proof (cases "r_idempotency_key a \<in> set ks")
    case True
    with Cons.IH [of ks] show ?thesis by auto
  next
    case False
    with Cons.IH [of "ks @ [r_idempotency_key a]"] show ?thesis by auto
  qed
qed

lemma accepted_Nil_iff:
  "accepted ks runs = [] \<longleftrightarrow> set (map r_idempotency_key runs) \<subseteq> set ks"
  by (induction runs arbitrary: ks) auto

lemma accepted_new_keys:
  "r \<in> set (accepted ks runs) \<Longrightarrow> r_idempotency_key r \<notin> set ks"
proof (induction runs arbitrary: ks)
  case Nil
  then show ?case by simp
next
  case (Cons a rs)
  show ?case
  proof (cases "r_idempotency_key a \<in> set ks")
    case True
    with Cons show ?thesis by simp
  next
    case False
    with Cons.prems have "r = a \<or> r \<in> set (accepted (ks @ [r_idempotency_key a]) rs)"
      by simp
    then show ?thesis
    proof
      assume "r = a"
      with False show ?thesis by simp
    next
      assume "r \<in> set (accepted (ks @ [r_idempotency_key a]) rs)"
      from Cons.IH [OF this] show ?thesis by simp
    qed
  qed
qed

lemma accepted_keys_distinct:
  "distinct (map r_idempotency_key (accepted ks runs))"
proof (induction runs arbitrary: ks)
  case Nil
  then show ?case by simp
next
  case (Cons r rs)
  have "r_idempotency_key r \<notin> r_idempotency_key ` set (accepted (ks @ [r_idempotency_key r]) rs)"
    using accepted_new_keys [of _ "ks @ [r_idempotency_key r]" rs] by fastforce
  with Cons show ?case by simp
qed

lemma filter_accepted:
  "distinct (map r_id runs) \<Longrightarrow>
   filter (\<lambda>r. r_id r \<in> set (map r_id (accepted ks runs))) runs = accepted ks runs"
proof (induction runs arbitrary: ks)
  case Nil
  then show ?case by simp
next
  case (Cons r rs)
  let ?k = "r_idempotency_key r"
  have notin: "r_id r \<notin> r_id ` set rs" using Cons.prems by simp
  show ?case
  proof (cases "?k \<in> set ks")
    case True
    have "r_id r \<notin> r_id ` set (accepted ks rs)"
      using notin accepted_subset [of ks rs] by auto
    with True Cons show ?thesis by simp
  next
    case False
    have "filter (\<lambda>x. r_id x \<in> set (map r_id (r # accepted (ks @ [?k]) rs))) rs =
          filter (\<lambda>x. r_id x \<in> set (map r_id (accepted (ks @ [?k]) rs))) rs"
      using notin by (intro filter_cong) (auto simp: image_iff)
    with False Cons show ?thesis by simp
  qed
qed

lemma on_conflict_do_nothing_fresh:
  "distinct (map r_id runs) \<Longrightarrow>
   \<forall>r \<in> set runs. \<forall>row \<in> set table. r_id (row_run row) \<noteq> r_id r \<Longrightarrow>
   on_conflict_do_nothing table runs =
     Inr (table @ map (\<lambda>r. \<lparr>row_run = r, row_state_id = None\<rparr>)
                    (accepted (map (\<lambda>row. r_idempotency_key (row_run row)) table) runs))"
proof (induction runs arbitrary: table)
  case Nil
  then show ?case by simp
next
  case (Cons r rs)
  let ?k = "r_idempotency_key r"
  let ?hit = "list_ex (\<lambda>row. flow_run_unique_upsert_columns (row_run row) =
                         flow_run_unique_upsert_columns r) table"
  have hit: "?hit \<longleftrightarrow> ?k \<in> set (map (\<lambda>row. r_idempotency_key (row_run row)) table)"
    unfolding list_ex_iff flow_run_unique_upsert_columns_def set_map image_iff
    by (rule bex_cong) (simp_all add: eq_commute)
  have d: "distinct (map r_id rs)" using Cons.prems(1) by simp
  have old: "\<forall>x \<in> set rs. \<forall>row \<in> set table. r_id (row_run row) \<noteq> r_id x"
    using Cons.prems(2) by simp
  show ?case
  proof (cases ?hit)
    case True
    with hit Cons.IH [OF d old] show ?thesis by simp
  next
    case False
    have "\<forall>row \<in> set table. r_id (row_run row) \<noteq> r_id r"
      using Cons.prems(2) by simp
    then have ni: "\<not> list_ex (\<lambda>row. r_id (row_run row) = r_id r) table"
      unfolding list_ex_iff by simp
    have "\<forall>x \<in> set rs. r_id r \<noteq> r_id x"
      using Cons.prems(1) by (simp add: image_iff)
    with old have pre: "\<forall>x \<in> set rs. \<forall>row \<in> set (table @ [\<lparr>row_run = r, row_state_id = None\<rparr>]).
                          r_id (row_run row) \<noteq> r_id x"
      by simp
    show ?thesis
      using False hit ni Cons.IH [OF d pre] by simp
  qed
qed

lemma insert_flow_run_states_eq:
  "insert_flow_run_states runs ids s =
     (map state_row (zip (filter (\<lambda>r. r_id r \<in> set ids) runs)
           [uuid4_next s ..< uuid4_next s + length (filter (\<lambda>r. r_id r \<in> set ids) runs)]),
      s\<lparr>uuid4_next := uuid4_next s + length (filter (\<lambda>r. r_id r \<in> set ids) runs)\<rparr>)"
proof (induction runs arbitrary: s)
  case Nil
  then show ?case by simp
next
  case (Cons r rs)
  show ?case
  proof (cases "r_id r \<in> set ids")
    case True
    then show ?thesis
      by (simp add: Cons.IH uuid4_def state_row_def upt_conv_Cons del: upt_Suc)
  next
    case False
    then show ?thesis by (simp add: Cons.IH)
  qed
qed

lemma inserted_rows_fresh:
  assumes sub: "set A \<subseteq> set runs"
    and T: "\<forall>row \<in> set T. \<forall>r \<in> set runs. r_id (row_run row) \<noteq> r_id r"
    and S: "\<forall>st \<in> set (flow_run_state_table s). \<forall>r \<in> set runs. s_flow_run_id st \<noteq> r_id r"
    and tab: "flow_run_table s = T @ map (\<lambda>r. \<lparr>row_run = r, row_state_id = None\<rparr>) A"
  shows "inserted_rows s runs = map r_id A"
proof -
  let ?P = "\<lambda>row. r_id (row_run row) \<in> set (map r_id runs) \<and>
                 \<not> list_ex (\<lambda>st. s_flow_run_id st = r_id (row_run row)) (flow_run_state_table s)"
  have old: "filter ?P T = []"
    using T by (auto simp: filter_empty_conv)
  have new: "filter ?P (map (\<lambda>r. \<lparr>row_run = r, row_state_id = None\<rparr>) A) =
             map (\<lambda>r. \<lparr>row_run = r, row_state_id = None\<rparr>) A"
    using sub S by (auto simp: filter_id_conv list_ex_iff)
  show ?thesis
    unfolding inserted_rows_def tab filter_append old new by (simp add: comp_def)
qed

lemma find_distinct_nth:
  "distinct (map f xs) \<Longrightarrow> i < length xs \<Longrightarrow> find (\<lambda>x. f x = f (xs ! i)) xs = Some (xs ! i)"
proof (induction xs arbitrary: i)
  case Nil
  then show ?case by simp
next
  case (Cons x xs)
  show ?case
  proof (cases i)
    case 0
    then show ?thesis by simp
  next
    case (Suc j)
    with Cons.prems have j: "j < length xs" and d: "distinct (map f xs)" by simp_all
    from Cons.prems j have "f x \<noteq> f (xs ! j)" by (auto simp: image_iff)
    with Suc Cons.IH [OF d j] show ?thesis by simp
  qed
qed

lemma set_state_id_fresh:
  assumes d: "distinct (map r_id A)"
    and len: "length U = length A"
    and T: "\<forall>row \<in> set T. \<forall>r \<in> set A. r_id (row_run row) \<noteq> r_id r"
  shows "set_state_id_on_inserted_flow_runs (map r_id A) (map state_row (zip A U))
           (T @ map (\<lambda>r. \<lparr>row_run = r, row_state_id = None\<rparr>) A) =
         T @ map linked_row (zip A U)"
proof -
  let ?sts = "map state_row (zip A U)"
  let ?f = "\<lambda>row. if r_id (row_run row) \<in> set (map r_id A)
              then (case find (\<lambda>st. s_flow_run_id st = r_id (row_run row)) ?sts of
                      Some st \<Rightarrow> row\<lparr>row_state_id := Some (s_id st)\<rparr>
                    | None \<Rightarrow> row)
              else row"
  have old: "map ?f T = T"
    using T by (intro map_idI) (auto simp: image_iff)
  have ids: "map s_flow_run_id ?sts = map r_id A"
    using len by (induction A U rule: list_induct2') (simp_all add: state_row_def)
  have new: "map ?f (map (\<lambda>r. \<lparr>row_run = r, row_state_id = None\<rparr>) A) = map linked_row (zip A U)"
  proof (rule nth_equalityI)
    show "length (map ?f (map (\<lambda>r. \<lparr>row_run = r, row_state_id = None\<rparr>) A)) =
          length (map linked_row (zip A U))"
      using len by simp
  next
    fix i
    assume "i < length (map ?f (map (\<lambda>r. \<lparr>row_run = r, row_state_id = None\<rparr>) A))"
    then have i: "i < length A" by simp
    then have i': "i < length ?sts" using len by simp
    have nth: "?sts ! i = state_row (A ! i, U ! i)"
      using i len by simp
    have "find (\<lambda>st. s_flow_run_id st = s_flow_run_id (?sts ! i)) ?sts = Some (?sts ! i)"
      using d i' by (intro find_distinct_nth) (simp_all only: ids)
    then have "find (\<lambda>st. s_flow_run_id st = r_id (A ! i)) ?sts = Some (state_row (A ! i, U ! i))"
      by (simp only: nth) (simp add: state_row_def)
    then show "map ?f (map (\<lambda>r. \<lparr>row_run = r, row_state_id = None\<rparr>) A) ! i =
               map linked_row (zip A U) ! i"
      using i len by (simp add: linked_row_def state_row_def)
  qed
  show ?thesis
    unfolding set_state_id_on_inserted_flow_runs_def map_append old new ..
qed

lemma map_s_id_state_row:
  "length U = length A \<Longrightarrow> map s_id (map state_row (zip A U)) = U"
  by (induction A U rule: list_induct2') (simp_all add: state_row_def)

lemma insert_scheduled_flow_runs_fresh:
  assumes fresh: "candidates_fresh s runs" and ne: "runs \<noteq> []"
  shows "insert_scheduled_flow_runs s runs =
           (Inr (accepted (stored_keys s) runs), persisted s (accepted (stored_keys s) runs))"
proof -
  let ?A = "accepted (stored_keys s) runs"
  let ?u = "uuid4_next s"
  let ?U = "[?u ..< ?u + length ?A]"
  let ?T = "flow_run_table s"
  let ?T1 = "?T @ map (\<lambda>r. \<lparr>row_run = r, row_state_id = None\<rparr>) ?A"
  let ?sts = "map state_row (zip ?A ?U)"
  from fresh have d: "distinct (map r_id runs)"
    and old: "\<forall>st \<in> set (flow_run_state_table s). s_id st < ?u"
    by (simp_all add: candidates_fresh_def list_all_iff)
  from fresh have T: "\<forall>r \<in> set runs. \<forall>row \<in> set ?T. r_id (row_run row) \<noteq> r_id r"
    unfolding candidates_fresh_def list_all_iff by (metis (no_types, lifting) image_eqI set_map)
  from fresh have S: "\<forall>r \<in> set runs. \<forall>st \<in> set (flow_run_state_table s). s_flow_run_id st \<noteq> r_id r"
    unfolding candidates_fresh_def list_all_iff by (metis (no_types, lifting) image_eqI set_map)
  have sub: "set ?A \<subseteq> set runs" by (rule accepted_subset)
  have dA: "distinct (map r_id ?A)" using d by (rule accepted_distinct)
  have ins: "on_conflict_do_nothing ?T runs = Inr ?T1"
    unfolding stored_keys_def
    by (rule on_conflict_do_nothing_fresh [OF d T])
  let ?s1 = "log_statement InsertFlowRuns (s\<lparr>flow_run_table := ?T1\<rparr>)"
  have e1: "execute_insert_flow_runs s runs = (Inr (), ?s1)"
    by (simp add: execute_insert_flow_runs_def ins)
  have probe: "inserted_rows ?s1 runs = map r_id ?A"
  proof (rule inserted_rows_fresh [OF sub, where T = ?T])
    show "\<forall>row \<in> set ?T. \<forall>r \<in> set runs. r_id (row_run row) \<noteq> r_id r"
      using T by metis
    show "\<forall>st \<in> set (flow_run_state_table ?s1). \<forall>r \<in> set runs. s_flow_run_id st \<noteq> r_id r"
      using S by (simp add: log_statement_def)
    show "flow_run_table ?s1 = ?T1" by (simp add: log_statement_def)
  qed
  let ?s2 = "log_statement SelectInserted ?s1"
  have e2: "execute_inserted_rows ?s1 runs = (map r_id ?A, ?s2)"
    by (simp add: execute_inserted_rows_def probe)
  have filt: "filter (\<lambda>r. r_id r \<in> set (map r_id ?A)) runs = ?A"
    using d by (rule filter_accepted)
  let ?s3 = "?s2\<lparr>uuid4_next := ?u + length ?A\<rparr>"
  have e3: "insert_flow_run_states runs (map r_id ?A) ?s2 = (?sts, ?s3)"
    by (simp only: insert_flow_run_states_eq filt) (simp add: log_statement_def)
  have empty: "?sts = [] \<longleftrightarrow> ?A = []" by auto
  have ids: "map s_id ?sts = ?U" by (rule map_s_id_state_row) simp
  have ok: "distinct (map s_id ?sts) \<and>
            list_all (\<lambda>st. s_id st \<notin> set (map s_id (flow_run_state_table ?s3))) ?sts"
  proof
    show "distinct (map s_id ?sts)" by (simp only: ids) simp
    have "\<forall>i \<in> set (map s_id ?sts). i \<notin> s_id ` set (flow_run_state_table s)"
      using old by (simp only: ids) auto
    then show "list_all (\<lambda>st. s_id st \<notin> set (map s_id (flow_run_state_table ?s3))) ?sts"
      by (simp add: list_all_iff log_statement_def)
  qed
  let ?s4 = "log_statement InsertFlowRunStates
               (?s3\<lparr>flow_run_state_table := flow_run_state_table ?s3 @ ?sts\<rparr>)"
  have e4: "execute_insert_states ?s3 ?sts = (Inr (), ?s4)"
    unfolding execute_insert_states_def using ok by (simp only: if_True conj_absorb simp_thms)
  have link: "set_state_id_on_inserted_flow_runs (map r_id ?A) ?sts ?T1 =
              ?T @ map linked_row (zip ?A ?U)"
  proof (rule set_state_id_fresh [OF dA])
    show "length ?U = length ?A" by simp
    show "\<forall>row \<in> set ?T. \<forall>r \<in> set ?A. r_id (row_run row) \<noteq> r_id r"
      using T sub by (metis subsetD)
  qed
  have tab4: "flow_run_table ?s4 = ?T1" by (simp add: log_statement_def)
  have e5: "execute_set_state_id ?s4 (map r_id ?A) ?sts = persisted s ?A" if "?A \<noteq> []"
    unfolding execute_set_state_id_def tab4 link
    using that by (simp add: log_statement_def persisted_def)
  have e3': "?s3 = persisted s ?A" if "?A = []"
    using that by (simp add: log_statement_def persisted_def)
  show ?thesis
  proof (cases "?A = []")
    case True
    have st: "?sts = []" using True empty by blast
    show ?thesis
      unfolding insert_scheduled_flow_runs_def
      by (simp only: ne e1 e2 e3 filt st e3' [OF True] if_False if_True split sum.case simp_thms)
  next
    case False
    have st: "?sts \<noteq> []" using False empty by blast
    show ?thesis
      unfolding insert_scheduled_flow_runs_def
      by (simp only: ne e1 e2 e3 e4 filt st e5 [OF False] if_False split sum.case simp_thms)
  qed
qed

lemma find_append_None: "find P xs = None \<Longrightarrow> find P (xs @ ys) = find P ys"
  by (induction xs) (simp_all split: if_splits)

lemma candidates_ids: "map r_id (candidates e d f did u dates) = [u ..< u + length dates]"
proof -
  have "map r_id (map (run_of e d f did) (zip U dates)) = U" if "length U = length dates" for U
    using that by (induction U dates rule: list_induct2') (simp_all add: run_of_def)
  then show ?thesis by (simp add: candidates_def)
qed

lemma candidates_keys:
  "map r_idempotency_key (candidates e d f did u dates) = map (idempotency_key e d) dates"
proof -
  have "map r_idempotency_key (map (run_of e d f did) (zip U dates)) =
        map (idempotency_key e d) dates" if "length U = length dates" for U
    using that by (induction U dates rule: list_induct2') (simp_all add: run_of_def)
  then show ?thesis by (simp add: candidates_def)
qed

lemma candidates_Nil_iff: "candidates e d f did u dates = [] \<longleftrightarrow> dates = []"
  by (auto simp: candidates_def)

lemma candidates_member:
  assumes "r \<in> set (candidates e d f did u dates)"
  shows "\<exists>i date. u \<le> i \<and> i < u + length dates \<and> date \<in> set dates \<and> r = run_of e d f did (i, date)"
proof -
  from assms obtain i date where "(i, date) \<in> set (zip [u ..< u + length dates] dates)"
    and r: "r = run_of e d f did (i, date)"
    by (auto simp: candidates_def)
  then have "i \<in> set [u ..< u + length dates]" and "date \<in> set dates"
    by (auto dest: set_zip_leftD set_zip_rightD)
  with r show ?thesis by auto
qed

lemma generate_active:
  assumes "find (\<lambda>d. d_id d = did) (deployment_table s) = Some d"
    and "d_schedule d = Some sched" and "d_is_schedule_active d" and "d_flow_id d = Some f"
  shows "generate_scheduled_flow_runs e s did start_time end_time max_runs =
           (Inr (candidates e d f did (uuid4_next s) (sched max_runs start_time end_time)),
            (log_statement GetDeployment s)
              \<lparr>uuid4_next := uuid4_next s + length (sched max_runs start_time end_time)\<rparr>)"
  using assms
  by (simp add: generate_scheduled_flow_runs_def session_get_def build_runs_Some
      candidates_def log_statement_def)

lemma generate_idle:
  assumes "find (\<lambda>d. d_id d = did) (deployment_table s) = None \<or>
           (\<exists>d. find (\<lambda>d. d_id d = did) (deployment_table s) = Some d \<and>
                (d_schedule d = None \<or> \<not> d_is_schedule_active d))"
  shows "generate_scheduled_flow_runs e s did start_time end_time max_runs =
           (Inr [], log_statement GetDeployment s)"
  using assms
  by (auto simp: generate_scheduled_flow_runs_def session_get_def split: option.splits)

lemma generate_no_flow:
  assumes "find (\<lambda>d. d_id d = did) (deployment_table s) = Some d"
    and "d_schedule d = Some sched" and "d_is_schedule_active d" and "d_flow_id d = None"
  shows "generate_scheduled_flow_runs e s did start_time end_time max_runs =
           (if sched max_runs start_time end_time = [] then Inr [] else Inl InvalidDeploymentState,
            log_statement GetDeployment s)"
  using assms
  by (simp add: generate_scheduled_flow_runs_def session_get_def build_runs_None)

lemma schedule_runs_eq:
  "schedule_runs e s did start_time end_time max_runs =
     (case generate_scheduled_flow_runs e s did (start_of e start_time)
             (end_of e start_time end_time) (max_runs_of e max_runs) of
        (Inl err, s') \<Rightarrow> (Inl err, s')
      | (Inr runs, s') \<Rightarrow> insert_scheduled_flow_runs s' runs)"
  unfolding schedule_runs_def start_of_def end_of_def max_runs_of_def Let_def ..

lemma candidates_fresh_generated:
  assumes "uuids_fresh s"
  shows "candidates_fresh
           ((log_statement GetDeployment s)\<lparr>uuid4_next := uuid4_next s + length dates\<rparr>)
           (candidates e d f did (uuid4_next s) dates)"
proof -
  let ?u = "uuid4_next s"
  from assms have T: "\<forall>row \<in> set (flow_run_table s). r_id (row_run row) < ?u"
    and S: "\<forall>st \<in> set (flow_run_state_table s). s_id st < ?u \<and> s_flow_run_id st < ?u"
    by (simp_all add: uuids_fresh_def list_all_iff)
  have ge: "\<forall>r \<in> set (candidates e d f did ?u dates). ?u \<le> r_id r"
  proof
    fix r assume "r \<in> set (candidates e d f did ?u dates)"
    then have "r_id r \<in> set (map r_id (candidates e d f did ?u dates))" by simp
    then show "?u \<le> r_id r" by (simp only: candidates_ids) simp
  qed
  have "distinct (map r_id (candidates e d f did ?u dates))"
    by (simp only: candidates_ids) simp
  moreover have "\<forall>r \<in> set (candidates e d f did ?u dates).
      r_id r \<notin> set (map (\<lambda>row. r_id (row_run row)) (flow_run_table s)) \<and>
      r_id r \<notin> set (map s_flow_run_id (flow_run_state_table s))"
    using ge T S by fastforce
  moreover have "\<forall>st \<in> set (flow_run_state_table s). s_id st < ?u + length dates"
    using S by fastforce
  ultimately show ?thesis
    by (simp add: candidates_fresh_def list_all_iff log_statement_def)
qed

lemma schedule_runs_active:
  assumes found: "find (\<lambda>d. d_id d = did) (deployment_table s) = Some d"
    and sched: "d_schedule d = Some sched" and active: "d_is_schedule_active d"
    and flow: "d_flow_id d = Some f" and fresh: "uuids_fresh s"
  shows "schedule_runs e s did start_time end_time max_runs =
          (let dates = dates_of e d start_time end_time max_runs;
               s1 = (log_statement GetDeployment s)\<lparr>uuid4_next := uuid4_next s + length dates\<rparr>;
               A = accepted (stored_keys s) (candidates e d f did (uuid4_next s) dates)
           in (Inr A, if dates = [] then s1 else persisted s1 A))"
proof -
  let ?dates = "dates_of e d start_time end_time max_runs"
  let ?runs = "candidates e d f did (uuid4_next s) ?dates"
  let ?s1 = "(log_statement GetDeployment s)\<lparr>uuid4_next := uuid4_next s + length ?dates\<rparr>"
  have dates: "sched (max_runs_of e max_runs) (start_of e start_time)
                 (end_of e start_time end_time) = ?dates"
    by (simp add: dates_of_def sched)
  have gen: "generate_scheduled_flow_runs e s did (start_of e start_time)
               (end_of e start_time end_time) (max_runs_of e max_runs) = (Inr ?runs, ?s1)"
    by (simp only: generate_active [OF found sched active flow] dates)
  have keys: "stored_keys ?s1 = stored_keys s"
    by (simp add: stored_keys_def log_statement_def)
  show ?thesis
  proof (cases "?dates = []")
    case True
    then have "?runs = []" by (simp add: candidates_def)
    then show ?thesis
      using True by (simp add: schedule_runs_eq gen insert_scheduled_flow_runs_def Let_def)
  next
    case False
    then have ne: "?runs \<noteq> []" by (simp add: candidates_Nil_iff)
    have "insert_scheduled_flow_runs ?s1 ?runs =
            (Inr (accepted (stored_keys ?s1) ?runs), persisted ?s1 (accepted (stored_keys ?s1) ?runs))"
      by (rule insert_scheduled_flow_runs_fresh [OF candidates_fresh_generated [OF fresh] ne])
    then show ?thesis
      using False by (simp only: schedule_runs_eq gen keys Let_def split sum.case if_False)
  qed
qed

subsection \<open>The claims about calls that write nothing\<close>

text \<open>
  Claim C9. Called with an empty list of candidates, \<open>_insert_scheduled_flow_runs\<close>
  returns the empty list and leaves the session as it was: no table changes, no
  statement is executed (no insert, no probe, no state write) and no id is drawn.
\<close>

theorem insert_scheduled_flow_runs_empty:
  "insert_scheduled_flow_runs s [] = (Inr [], s)"
  by (simp add: insert_scheduled_flow_runs_def)

text \<open>
  Claim C4. When the deployment does not exist, or has no schedule, or its schedule is
  not active, \<open>schedule_runs\<close> returns the empty list and not an error; the flow run
  table and the flow run state table are unchanged, and the only statement executed is
  the lookup of the deployment.
\<close>

theorem schedule_runs_without_active_schedule:
  assumes "find (\<lambda>d. d_id d = deployment_id) (deployment_table s) = None \<or>
           (\<exists>d. find (\<lambda>d. d_id d = deployment_id) (deployment_table s) = Some d \<and>
                (d_schedule d = None \<or> \<not> d_is_schedule_active d))"
  shows "fst (schedule_runs e s deployment_id start_time end_time max_runs) = Inr [] \<and>
         flow_run_table (snd (schedule_runs e s deployment_id start_time end_time max_runs)) =
           flow_run_table s \<and>
         flow_run_state_table (snd (schedule_runs e s deployment_id start_time end_time max_runs)) =
           flow_run_state_table s \<and>
         executed (snd (schedule_runs e s deployment_id start_time end_time max_runs)) =
           executed s @ [GetDeployment]"
proof -
  have "schedule_runs e s deployment_id start_time end_time max_runs =
          (Inr [], log_statement GetDeployment s)"
    by (simp add: schedule_runs_eq generate_idle [OF assms] insert_scheduled_flow_runs_def)
  then show ?thesis by (simp add: log_statement_def)
qed

text \<open>The deployment of the example with its schedule switched off.\<close>

theorem schedule_runs_without_active_schedule_witness:
  "fst (schedule_runs example_env (example_session\<lparr>deployment_table :=
          [example_deployment\<lparr>d_is_schedule_active := False\<rparr>]\<rparr>) 1 None None None) = Inr [] \<and>
   executed (snd (schedule_runs example_env (example_session\<lparr>deployment_table :=
          [example_deployment\<lparr>d_is_schedule_active := False\<rparr>]\<rparr>) 1 None None None)) =
     [GetDeployment]"
  using schedule_runs_without_active_schedule
    [of 1 "example_session\<lparr>deployment_table :=
          [example_deployment\<lparr>d_is_schedule_active := False\<rparr>]\<rparr>" example_env None None None]
  by (simp add: example_session_def example_deployment_def)

text \<open>
  Claim C5. The idempotency key of a built run is determined by the id of the
  deployment and the date: two builds for deployments of the same id and for the same
  date give the same key, whatever the other fields of the deployments, the sessions
  and the ids drawn are. The key is the string that the f-string renders.
\<close>

theorem idempotency_key_deterministic:
  assumes "d_id d = d_id d'"
    and "build_run e d deployment_id date s = (Inr r, s1)"
    and "build_run e d' deployment_id' date s' = (Inr r', s1')"
  shows "r_idempotency_key r = r_idempotency_key r' \<and>
         r_idempotency_key r =
           ''scheduled '' @ str_UUID e (d_id d) @ '' '' @ str_DateTime e date"
  using assms
  by (auto simp: build_run_def new_FlowRun_def uuid4_def idempotency_key_def
      split: option.splits)

text \<open>Two builds for the date 2, with different tags, sessions and ids.\<close>

theorem idempotency_key_deterministic_witness:
  "build_run example_env example_deployment 1 2 example_session =
     (Inr (run_of example_env example_deployment 0 1 (2, 2)), example_session\<lparr>uuid4_next := 3\<rparr>) \<and>
   build_run example_env (example_deployment\<lparr>d_tags := []\<rparr>) 5 2
       (example_session\<lparr>uuid4_next := 7\<rparr>) =
     (Inr (run_of example_env (example_deployment\<lparr>d_tags := []\<rparr>) 0 5 (7, 2)),
      example_session\<lparr>uuid4_next := 8\<rparr>) \<and>
   r_idempotency_key (run_of example_env example_deployment 0 1 (2, 2)) =
     r_idempotency_key (run_of example_env (example_deployment\<lparr>d_tags := []\<rparr>) 0 5 (7, 2))"
proof -
  have b1: "build_run example_env example_deployment 1 2 example_session =
     (Inr (run_of example_env example_deployment 0 1 (2, 2)), example_session\<lparr>uuid4_next := 3\<rparr>)"
    by (simp add: build_run_def new_FlowRun_def uuid4_def run_of_def example_deployment_def
        example_session_def)
  have b2: "build_run example_env (example_deployment\<lparr>d_tags := []\<rparr>) 5 2
       (example_session\<lparr>uuid4_next := 7\<rparr>) =
     (Inr (run_of example_env (example_deployment\<lparr>d_tags := []\<rparr>) 0 5 (7, 2)),
      example_session\<lparr>uuid4_next := 8\<rparr>)"
    by (simp add: build_run_def new_FlowRun_def uuid4_def run_of_def example_deployment_def
        example_session_def)
  have same: "d_id example_deployment = d_id (example_deployment\<lparr>d_tags := []\<rparr>)"
    by simp
  from idempotency_key_deterministic [OF same b1 b2] b1 b2 show ?thesis
    by blast
qed

text \<open>
  Claim C8. For a deployment without a \<open>flow_id\<close>, building a run fails with
  \<open>InvalidDeploymentState\<close> and changes nothing; a call of \<open>schedule_runs\<close> that
  reaches the builder (the deployment is found, its schedule is active and yields a
  date) returns that error, having executed the lookup of the deployment only.
\<close>

theorem build_run_without_flow_id:
  assumes "d_flow_id d = None"
  shows "build_run e d deployment_id date s = (Inl InvalidDeploymentState, s) \<and>
         (find (\<lambda>d. d_id d = deployment_id) (deployment_table s) = Some d \<and>
          d_is_schedule_active d \<and> dates_of e d start_time end_time max_runs \<noteq> [] \<longrightarrow>
          schedule_runs e s deployment_id start_time end_time max_runs =
            (Inl InvalidDeploymentState, log_statement GetDeployment s))"
proof (intro conjI impI)
  show "build_run e d deployment_id date s = (Inl InvalidDeploymentState, s)"
    using assms by (rule build_run_None)
next
  assume a: "find (\<lambda>d. d_id d = deployment_id) (deployment_table s) = Some d \<and>
          d_is_schedule_active d \<and> dates_of e d start_time end_time max_runs \<noteq> []"
  then obtain sched where sched: "d_schedule d = Some sched"
    by (cases "d_schedule d") (auto simp: dates_of_def)
  with a have ne: "sched (max_runs_of e max_runs) (start_of e start_time)
                     (end_of e start_time end_time) \<noteq> []"
    by (simp add: dates_of_def)
  from a have found: "find (\<lambda>d. d_id d = deployment_id) (deployment_table s) = Some d"
    and active: "d_is_schedule_active d" by simp_all
  show "schedule_runs e s deployment_id start_time end_time max_runs =
            (Inl InvalidDeploymentState, log_statement GetDeployment s)"
    using ne by (simp add: schedule_runs_eq generate_no_flow [OF found sched active assms])
qed

text \<open>The deployment of the example without its \<open>flow_id\<close>.\<close>

theorem build_run_without_flow_id_witness:
  "build_run example_env (example_deployment\<lparr>d_flow_id := None\<rparr>) 1 0 example_session =
     (Inl InvalidDeploymentState, example_session) \<and>
   schedule_runs example_env
       (example_session\<lparr>deployment_table := [example_deployment\<lparr>d_flow_id := None\<rparr>]\<rparr>)
       1 (Some 0) (Some 3) (Some 10) =
     (Inl InvalidDeploymentState,
      example_session\<lparr>deployment_table := [example_deployment\<lparr>d_flow_id := None\<rparr>],
        executed := [GetDeployment]\<rparr>)"
proof -
  have none: "d_flow_id (example_deployment\<lparr>d_flow_id := None\<rparr>) = None" by simp
  from build_run_without_flow_id [OF none, of example_env 1 0
      "example_session\<lparr>deployment_table := [example_deployment\<lparr>d_flow_id := None\<rparr>]\<rparr>"
      "Some 0" "Some 3" "Some 10"]
    build_run_without_flow_id [OF none, of example_env 1 0 example_session]
  show ?thesis
    by (simp add: example_session_def example_deployment_def dates_of_def example_schedule_def
        max_runs_of_def start_of_def end_of_def log_statement_def)
qed

subsection \<open>The claims about calls that write\<close>

lemma insert_result_probe:
  assumes "insert_scheduled_flow_runs s runs = (Inr res, s')"
  shows "\<exists>table. on_conflict_do_nothing (flow_run_table s) runs = Inr table \<and>
           res = filter (\<lambda>r. r_id r \<in> set (inserted_rows (s\<lparr>flow_run_table := table\<rparr>) runs)) runs"
proof (cases "runs = []")
  case True
  with assms show ?thesis by (simp add: insert_scheduled_flow_runs_def)
next
  case False
  have probe: "inserted_rows (log_statement q (s\<lparr>flow_run_table := table\<rparr>)) runs =
               inserted_rows (s\<lparr>flow_run_table := table\<rparr>) runs" for q table
    by (simp add: inserted_rows_def log_statement_def)
  from assms False show ?thesis
    by (auto simp: insert_scheduled_flow_runs_def execute_insert_flow_runs_def
        execute_inserted_rows_def probe split: sum.splits prod.splits if_splits)
qed

lemma generate_result:
  assumes "generate_scheduled_flow_runs e s did start_time end_time max_runs = (Inr runs, s')"
  shows "runs = [] \<or>
         (\<exists>d sched f. find (\<lambda>d. d_id d = did) (deployment_table s) = Some d \<and>
            d_schedule d = Some sched \<and> d_is_schedule_active d \<and> d_flow_id d = Some f \<and>
            runs = candidates e d f did (uuid4_next s) (sched max_runs start_time end_time))"
proof (cases "find (\<lambda>d. d_id d = did) (deployment_table s)")
  case None
  with assms show ?thesis by (simp add: generate_idle)
next
  case (Some d)
  show ?thesis
  proof (cases "d_schedule d")
    case None
    with Some assms show ?thesis by (simp add: generate_idle)
  next
    case sched: (Some sched)
    show ?thesis
    proof (cases "d_is_schedule_active d")
      case False
      with Some assms show ?thesis by (simp add: generate_idle)
    next
      case True
      show ?thesis
      proof (cases "d_flow_id d")
        case None
        from assms show ?thesis
          by (simp add: generate_no_flow [OF Some sched True None] split: if_splits)
      next
        case f: (Some f)
        from assms show ?thesis
          using Some sched True f by (simp add: generate_active [OF Some sched True f])
      qed
    qed
  qed
qed

lemma run_of_fields:
  "r_id (run_of e d f did ud) = fst ud"
  "r_flow_id (run_of e d f did ud) = f"
  "r_deployment_id (run_of e d f did ud) = did"
  "r_parameters (run_of e d f did ud) = d_parameters d"
  "r_idempotency_key (run_of e d f did ud) = idempotency_key e d (snd ud)"
  "r_tags (run_of e d f did ud) = ''auto-scheduled'' # d_tags d"
  "r_state (run_of e d f did ud) = Scheduled (snd ud) ''Flow run scheduled''"
  "r_state_type (run_of e d f did ud) = SCHEDULED"
  "r_next_scheduled_start_time (run_of e d f did ud) = snd ud"
  "r_expected_start_time (run_of e d f did ud) = snd ud"
  by (simp_all add: run_of_def)

text \<open>
  Claim C6. For a deployment that is found, when the dates that its schedule yields for
  the call are at most \<open>max_runs\<close> many and all lie in the window from \<open>start_time\<close>
  (included) to \<open>end_time\<close> (excluded), both with their defaults filled in, then
  \<open>schedule_runs\<close> returns at most \<open>max_runs\<close> runs, and the scheduled time of each
  returned run (of the run and of its state) lies in that window.
\<close>

theorem schedule_runs_window:
  assumes found: "find (\<lambda>d. d_id d = deployment_id) (deployment_table s) = Some d"
    and count: "int (length (dates_of e d start_time end_time max_runs)) \<le> max_runs_of e max_runs"
    and window: "\<forall>t \<in> set (dates_of e d start_time end_time max_runs).
                   start_of e start_time \<le> t \<and> t < end_of e start_time end_time"
    and result: "schedule_runs e s deployment_id start_time end_time max_runs = (Inr rs, s')"
  shows "int (length rs) \<le> max_runs_of e max_runs \<and>
         (\<forall>r \<in> set rs.
            start_of e start_time \<le> r_expected_start_time r \<and>
            r_expected_start_time r < end_of e start_time end_time \<and>
            st_scheduled_time (r_state r) = r_expected_start_time r \<and>
            r_next_scheduled_start_time r = r_expected_start_time r)"
proof -
  from result obtain runs s1 where
    gen: "generate_scheduled_flow_runs e s deployment_id (start_of e start_time)
            (end_of e start_time end_time) (max_runs_of e max_runs) = (Inr runs, s1)"
    and ins: "insert_scheduled_flow_runs s1 runs = (Inr rs, s')"
    by (auto simp: schedule_runs_eq split: prod.splits sum.splits)
  from insert_result_probe [OF ins] obtain P where rs: "rs = filter P runs" by blast
  from generate_result [OF gen]
  have runs: "runs = [] \<or>
      (\<exists>f. runs = candidates e d f deployment_id (uuid4_next s)
                     (dates_of e d start_time end_time max_runs))"
    using found by (auto simp: dates_of_def)
  from count have nonneg: "0 \<le> max_runs_of e max_runs" by linarith
  show ?thesis
  proof (cases "runs = []")
    case True
    with rs nonneg show ?thesis by simp
  next
    case False
    with runs obtain f where c: "runs = candidates e d f deployment_id (uuid4_next s)
                     (dates_of e d start_time end_time max_runs)" by blast
    have "length rs \<le> length runs" unfolding rs by (rule length_filter_le)
    also have "length runs = length (dates_of e d start_time end_time max_runs)"
      unfolding c by (simp add: candidates_def)
    finally have len: "int (length rs) \<le> max_runs_of e max_runs" using count by linarith
    have each: "start_of e start_time \<le> r_expected_start_time r \<and>
            r_expected_start_time r < end_of e start_time end_time \<and>
            st_scheduled_time (r_state r) = r_expected_start_time r \<and>
            r_next_scheduled_start_time r = r_expected_start_time r" if "r \<in> set rs" for r
    proof -
      from that have "r \<in> set runs" by (simp add: rs)
      from candidates_member [OF this [unfolded c]] obtain i date
        where date: "date \<in> set (dates_of e d start_time end_time max_runs)"
          and r: "r = run_of e d f deployment_id (i, date)" by blast
      from window date show ?thesis
        by (simp add: r run_of_fields Scheduled_def)
    qed
    from len each show ?thesis by blast
  qed
qed

lemma example_first_call_ok:
  "\<not> isl (fst (schedule_runs example_env example_session 1 (Some 0) (Some 3) (Some 2)))"
  by code_simp

lemma example_first_call_dates:
  "map r_expected_start_time
     (projr (fst (schedule_runs example_env example_session 1 (Some 0) (Some 3) (Some 2)))) = [0, 1]"
  by code_simp

text \<open>The example with a cap of two runs: the runs of the dates 0 and 1 are returned.\<close>

theorem schedule_runs_window_witness:
  "map r_expected_start_time
     (projr (fst (schedule_runs example_env example_session 1 (Some 0) (Some 3) (Some 2)))) = [0, 1] \<and>
   int (length (projr (fst (schedule_runs example_env example_session 1 (Some 0) (Some 3)
     (Some 2))))) \<le> 2 \<and>
   list_all (\<lambda>r. 0 \<le> r_expected_start_time r \<and> r_expected_start_time r < 3)
     (projr (fst (schedule_runs example_env example_session 1 (Some 0) (Some 3) (Some 2))))"
proof -
  let ?X = "schedule_runs example_env example_session 1 (Some 0) (Some 3) (Some 2)"
  have found: "find (\<lambda>d. d_id d = 1) (deployment_table example_session) = Some example_deployment"
    by (simp add: example_session_def example_deployment_def)
  have dates: "dates_of example_env example_deployment (Some 0) (Some 3) (Some 2) = [0, 1]"
    by (simp add: dates_of_def example_deployment_def example_schedule_def max_runs_of_def
        start_of_def end_of_def eval_nat_numeral)
  have count: "int (length (dates_of example_env example_deployment (Some 0) (Some 3) (Some 2)))
        \<le> max_runs_of example_env (Some 2)"
    by (simp add: dates max_runs_of_def)
  have window: "\<forall>t \<in> set (dates_of example_env example_deployment (Some 0) (Some 3) (Some 2)).
      start_of example_env (Some 0) \<le> t \<and> t < end_of example_env (Some 0) (Some 3)"
    by (simp add: dates start_of_def end_of_def)
  have result: "?X = (Inr (projr (fst ?X)), snd ?X)"
    using example_first_call_ok by (simp add: prod_eq_iff)
  from schedule_runs_window [OF found count window result] example_first_call_dates
  show ?thesis by (simp add: max_runs_of_def start_of_def end_of_def list_all_iff)
qed

lemma schedule_runs_result:
  assumes fresh: "uuids_fresh s"
    and result: "schedule_runs e s did start_time end_time max_runs = (Inr rs, s')"
    and ne: "rs \<noteq> []"
  shows "\<exists>d f. find (\<lambda>d. d_id d = did) (deployment_table s) = Some d \<and>
           d_flow_id d = Some f \<and>
           rs = accepted (stored_keys s)
                  (candidates e d f did (uuid4_next s) (dates_of e d start_time end_time max_runs)) \<and>
           s' = persisted ((log_statement GetDeployment s)
                   \<lparr>uuid4_next := uuid4_next s +
                      length (dates_of e d start_time end_time max_runs)\<rparr>) rs"
proof -
  from result obtain runs s1 where
    gen: "generate_scheduled_flow_runs e s did (start_of e start_time)
            (end_of e start_time end_time) (max_runs_of e max_runs) = (Inr runs, s1)"
    and ins: "insert_scheduled_flow_runs s1 runs = (Inr rs, s')"
    by (auto simp: schedule_runs_eq split: prod.splits sum.splits)
  from insert_result_probe [OF ins] ne have "runs \<noteq> []" by auto
  with generate_result [OF gen] obtain d sched f where
    found: "find (\<lambda>d. d_id d = did) (deployment_table s) = Some d"
    and sched: "d_schedule d = Some sched" and active: "d_is_schedule_active d"
    and flow: "d_flow_id d = Some f" by blast
  let ?dates = "dates_of e d start_time end_time max_runs"
  from schedule_runs_active [OF found sched active flow fresh, of e start_time end_time max_runs]
    result
  have rs: "rs = accepted (stored_keys s) (candidates e d f did (uuid4_next s) ?dates)"
    and s': "s' = (if ?dates = []
                   then (log_statement GetDeployment s)\<lparr>uuid4_next := uuid4_next s + length ?dates\<rparr>
                   else persisted ((log_statement GetDeployment s)
                          \<lparr>uuid4_next := uuid4_next s + length ?dates\<rparr>) rs)"
    by (simp_all add: Let_def)
  from rs ne have "?dates \<noteq> []" by (auto simp: candidates_def)
  with s' found flow rs show ?thesis by simp
qed

lemma map_r_id_linked_row:
  "length U = length A \<Longrightarrow>
   map (\<lambda>row. r_id (row_run row)) (map linked_row (zip A U)) = map r_id A"
  by (induction A U rule: list_induct2') (simp_all add: linked_row_def)

lemma persisted_read:
  assumes d: "distinct (map r_id A)"
    and T: "\<forall>row \<in> set (flow_run_table s). \<forall>r \<in> set A. r_id (row_run row) \<noteq> r_id r"
    and S: "\<forall>st \<in> set (flow_run_state_table s). s_id st < uuid4_next s"
    and r: "r \<in> set A"
  shows "\<exists>u. read_flow_run (persisted s A) (r_id r) = Some (linked_row (r, u)) \<and>
             read_flow_run_state (persisted s A) u = Some (state_row (r, u))"
proof -
  let ?u = "uuid4_next s"
  let ?U = "[?u ..< ?u + length A]"
  let ?L = "map linked_row (zip A ?U)"
  let ?St = "map state_row (zip A ?U)"
  from r obtain i where i: "i < length A" and Ai: "A ! i = r"
    by (auto simp: in_set_conv_nth)
  have len: "length ?U = length A" by simp
  have Li: "?L ! i = linked_row (r, ?u + i)" and Si: "?St ! i = state_row (r, ?u + i)"
    using i Ai by simp_all
  have idsL: "map (\<lambda>row. r_id (row_run row)) ?L = map r_id A"
    by (rule map_r_id_linked_row) simp
  have idsS: "map s_id ?St = ?U" by (rule map_s_id_state_row) simp
  have "find (\<lambda>row. r_id (row_run row) = r_id (row_run (?L ! i))) ?L = Some (?L ! i)"
    using d i by (intro find_distinct_nth) (simp_all only: idsL length_map length_zip len min.idem)
  then have fL: "find (\<lambda>row. r_id (row_run row) = r_id r) ?L = Some (linked_row (r, ?u + i))"
    by (simp only: Li) (simp add: linked_row_def)
  have "find (\<lambda>st. s_id st = s_id (?St ! i)) ?St = Some (?St ! i)"
    using i by (intro find_distinct_nth) (simp_all only: idsS length_map length_zip len min.idem distinct_upt)
  then have fS: "find (\<lambda>st. s_id st = ?u + i) ?St = Some (state_row (r, ?u + i))"
    by (simp only: Si) (simp add: state_row_def)
  have nT: "find (\<lambda>row. r_id (row_run row) = r_id r) (flow_run_table s) = None"
    unfolding find_None_iff using T r by metis
  have nS: "find (\<lambda>st. s_id st = ?u + i) (flow_run_state_table s) = None"
    unfolding find_None_iff using S by fastforce
  have "read_flow_run (persisted s A) (r_id r) = Some (linked_row (r, ?u + i))"
    by (simp add: read_flow_run_def persisted_def find_append_None [OF nT] fL)
  moreover have "read_flow_run_state (persisted s A) (?u + i) = Some (state_row (r, ?u + i))"
    by (simp add: read_flow_run_state_def persisted_def find_append_None [OF nS] fS)
  ultimately show ?thesis by blast
qed

lemma schedule_runs_read:
  assumes fresh: "uuids_fresh s"
    and result: "schedule_runs e s did start_time end_time max_runs = (Inr rs, s')"
    and r: "r \<in> set rs"
  shows "\<exists>u. read_flow_run s' (r_id r) = Some (linked_row (r, u)) \<and>
             read_flow_run_state s' u = Some (state_row (r, u))"
proof -
  from r have ne: "rs \<noteq> []" by auto
  from schedule_runs_result [OF fresh result ne] obtain d f where
    rs: "rs = accepted (stored_keys s)
                  (candidates e d f did (uuid4_next s) (dates_of e d start_time end_time max_runs))"
    and s': "s' = persisted ((log_statement GetDeployment s)
                   \<lparr>uuid4_next := uuid4_next s +
                      length (dates_of e d start_time end_time max_runs)\<rparr>) rs"
    by blast
  let ?dates = "dates_of e d start_time end_time max_runs"
  let ?runs = "candidates e d f did (uuid4_next s) ?dates"
  let ?s1 = "(log_statement GetDeployment s)\<lparr>uuid4_next := uuid4_next s + length ?dates\<rparr>"
  have cf: "candidates_fresh ?s1 ?runs" by (rule candidates_fresh_generated [OF fresh])
  then have d: "distinct (map r_id rs)"
    unfolding rs by (intro accepted_distinct) (simp add: candidates_fresh_def)
  have sub: "set rs \<subseteq> set ?runs" unfolding rs by (rule accepted_subset)
  from cf have "\<forall>x \<in> set ?runs. \<forall>row \<in> set (flow_run_table ?s1). r_id (row_run row) \<noteq> r_id x"
    unfolding candidates_fresh_def list_all_iff by (metis (no_types, lifting) image_eqI set_map)
  with sub have T: "\<forall>row \<in> set (flow_run_table ?s1). \<forall>x \<in> set rs. r_id (row_run row) \<noteq> r_id x"
    by (metis subsetD)
  from cf have S: "\<forall>st \<in> set (flow_run_state_table ?s1). s_id st < uuid4_next ?s1"
    by (simp add: candidates_fresh_def list_all_iff)
  from persisted_read [OF d T S r] show ?thesis unfolding s' .
qed

lemma schedule_runs_member:
  assumes fresh: "uuids_fresh s"
    and result: "schedule_runs e s did start_time end_time max_runs = (Inr rs, s')"
    and r: "r \<in> set rs"
  shows "\<exists>d f i date. find (\<lambda>d. d_id d = did) (deployment_table s) = Some d \<and>
           d_flow_id d = Some f \<and> uuid4_next s \<le> i \<and>
           date \<in> set (dates_of e d start_time end_time max_runs) \<and>
           r = run_of e d f did (i, date)"
proof -
  from r have ne: "rs \<noteq> []" by auto
  from schedule_runs_result [OF fresh result ne] obtain d f where
    found: "find (\<lambda>d. d_id d = did) (deployment_table s) = Some d"
    and flow: "d_flow_id d = Some f"
    and rs: "rs = accepted (stored_keys s)
                  (candidates e d f did (uuid4_next s) (dates_of e d start_time end_time max_runs))"
    by blast
  from r have "r \<in> set (candidates e d f did (uuid4_next s)
                  (dates_of e d start_time end_time max_runs))"
    unfolding rs using accepted_subset by blast
  from candidates_member [OF this] found flow show ?thesis by blast
qed

text \<open>
  Claim C3. In a session whose ids were all generated earlier, every run that
  \<open>schedule_runs\<close> returns is stored with a state: the flow run state table holds a row
  for the run, of type \<open>SCHEDULED\<close> and with the scheduled time of the run, and the
  \<open>state_id\<close> of the stored run is the id of that row. No returned run is left without
  a state.
\<close>

theorem returned_runs_have_scheduled_state:
  assumes fresh: "uuids_fresh s"
    and result: "schedule_runs e s deployment_id start_time end_time max_runs = (Inr rs, s')"
    and r: "r \<in> set rs"
  shows "\<exists>row st.
           read_flow_run s' (r_id r) = Some row \<and> row_run row = r \<and>
           row_state_id row = Some (s_id st) \<and>
           read_flow_run_state s' (s_id st) = Some st \<and>
           s_flow_run_id st = r_id r \<and>
           st_type (s_state st) = SCHEDULED \<and>
           st_scheduled_time (s_state st) = r_expected_start_time r \<and>
           list_ex (\<lambda>st. s_flow_run_id st = r_id r) (flow_run_state_table s')"
proof -
  from schedule_runs_read [OF fresh result r] obtain u where
    row: "read_flow_run s' (r_id r) = Some (linked_row (r, u))"
    and st: "read_flow_run_state s' u = Some (state_row (r, u))" by blast
  from schedule_runs_member [OF fresh result r] obtain d f i date where
    "r = run_of e d f deployment_id (i, date)" by blast
  then have state: "st_type (r_state r) = SCHEDULED"
    "st_scheduled_time (r_state r) = r_expected_start_time r"
    by (simp_all add: run_of_fields Scheduled_def)
  from st have "state_row (r, u) \<in> set (flow_run_state_table s')"
    unfolding read_flow_run_state_def find_Some_iff by (metis nth_mem)
  then have ex: "list_ex (\<lambda>st. s_flow_run_id st = r_id r) (flow_run_state_table s')"
    unfolding list_ex_iff by (rule bexI [rotated]) (simp add: state_row_def)
  have "read_flow_run s' (r_id r) = Some (linked_row (r, u)) \<and>
        row_run (linked_row (r, u)) = r \<and>
        row_state_id (linked_row (r, u)) = Some (s_id (state_row (r, u))) \<and>
        read_flow_run_state s' (s_id (state_row (r, u))) = Some (state_row (r, u)) \<and>
        s_flow_run_id (state_row (r, u)) = r_id r \<and>
        st_type (s_state (state_row (r, u))) = SCHEDULED \<and>
        st_scheduled_time (s_state (state_row (r, u))) = r_expected_start_time r"
    using row st state by (simp add: linked_row_def state_row_def)
  with ex show ?thesis by blast
qed

lemma example_three_ok:
  "\<not> isl (fst (schedule_runs example_env example_session 1 (Some 0) (Some 3) (Some 10)))"
  by code_simp

lemma example_three_ids:
  "map r_id (projr (fst (schedule_runs example_env example_session 1 (Some 0) (Some 3) (Some 10))))
     = [2, 3, 4]"
  by code_simp

lemma example_session_fresh: "uuids_fresh example_session"
  by (simp add: uuids_fresh_def example_session_def)

text \<open>The first run of the example, with the id 2.\<close>

theorem returned_runs_have_scheduled_state_witness:
  "map r_id (projr (fst (schedule_runs example_env example_session 1 (Some 0) (Some 3) (Some 10))))
     = [2, 3, 4] \<and>
   (\<exists>row st.
      read_flow_run (snd (schedule_runs example_env example_session 1 (Some 0) (Some 3) (Some 10)))
        2 = Some row \<and>
      row_state_id row = Some (s_id st) \<and>
      read_flow_run_state
        (snd (schedule_runs example_env example_session 1 (Some 0) (Some 3) (Some 10)))
        (s_id st) = Some st \<and>
      s_flow_run_id st = 2 \<and> st_type (s_state st) = SCHEDULED)"
proof -
  let ?X = "schedule_runs example_env example_session 1 (Some 0) (Some 3) (Some 10)"
  let ?rs = "projr (fst ?X)"
  have result: "?X = (Inr ?rs, snd ?X)"
    using example_three_ok by (simp add: prod_eq_iff)
  from example_three_ids have ne: "?rs \<noteq> []" by auto
  then have r: "hd ?rs \<in> set ?rs" by (rule hd_in_set)
  from example_three_ids ne have id: "r_id (hd ?rs) = 2"
    by (metis list.sel(1) list.map_sel(1))
  from returned_runs_have_scheduled_state [OF example_session_fresh result r]
  show ?thesis unfolding id using example_three_ids by blast
qed

text \<open>
  Claim C7. Every run that \<open>schedule_runs\<close> returns for a deployment has the tags
  \<open>auto-scheduled\<close> followed by the tags of the deployment (as a set: their union), the
  \<open>flow_id\<close> and the parameters of the deployment, and an id that is new (drawn by this
  call and carried by no run stored before), different from the ids of the other
  returned runs, and the id under which the run is stored.
\<close>

theorem built_run_copies_deployment:
  assumes fresh: "uuids_fresh s"
    and found: "find (\<lambda>d. d_id d = deployment_id) (deployment_table s) = Some d"
    and result: "schedule_runs e s deployment_id start_time end_time max_runs = (Inr rs, s')"
    and r: "r \<in> set rs"
  shows "r_tags r = ''auto-scheduled'' # d_tags d \<and>
         set (r_tags r) = {''auto-scheduled''} \<union> set (d_tags d) \<and>
         d_flow_id d = Some (r_flow_id r) \<and>
         r_parameters r = d_parameters d \<and>
         r_deployment_id r = deployment_id \<and>
         uuid4_next s \<le> r_id r \<and>
         r_id r \<notin> set (map (\<lambda>row. r_id (row_run row)) (flow_run_table s)) \<and>
         distinct (map r_id rs) \<and>
         (\<exists>row. read_flow_run s' (r_id r) = Some row \<and> row_run row = r)"
proof -
  from schedule_runs_member [OF fresh result r] found obtain f i date where
    flow: "d_flow_id d = Some f" and i: "uuid4_next s \<le> i"
    and run: "r = run_of e d f deployment_id (i, date)" by auto
  from fresh have "\<forall>row \<in> set (flow_run_table s). r_id (row_run row) < uuid4_next s"
    by (simp add: uuids_fresh_def list_all_iff)
  with i have new: "r_id r \<notin> set (map (\<lambda>row. r_id (row_run row)) (flow_run_table s))"
    by (auto simp: run run_of_fields)
  from r have ne: "rs \<noteq> []" by auto
  from schedule_runs_result [OF fresh result ne] obtain d' f' where
    "rs = accepted (stored_keys s)
            (candidates e d' f' deployment_id (uuid4_next s)
               (dates_of e d' start_time end_time max_runs))" by blast
  then have d: "distinct (map r_id rs)"
    by (simp only: accepted_distinct candidates_ids distinct_upt)
  from schedule_runs_read [OF fresh result r]
  have "\<exists>row. read_flow_run s' (r_id r) = Some row \<and> row_run row = r"
    by (auto simp: linked_row_def)
  with flow i new d show ?thesis by (simp add: run run_of_fields)
qed

text \<open>The first run of the example.\<close>

theorem built_run_copies_deployment_witness:
  "map r_id (projr (fst (schedule_runs example_env example_session 1 (Some 0) (Some 3) (Some 10))))
     = [2, 3, 4] \<and>
   r_tags (hd (projr (fst (schedule_runs example_env example_session 1 (Some 0) (Some 3)
     (Some 10))))) = [''auto-scheduled'', ''nightly''] \<and>
   r_flow_id (hd (projr (fst (schedule_runs example_env example_session 1 (Some 0) (Some 3)
     (Some 10))))) = 0 \<and>
   r_parameters (hd (projr (fst (schedule_runs example_env example_session 1 (Some 0) (Some 3)
     (Some 10))))) = [(''x'', ''1'')]"
proof -
  let ?X = "schedule_runs example_env example_session 1 (Some 0) (Some 3) (Some 10)"
  let ?rs = "projr (fst ?X)"
  have result: "?X = (Inr ?rs, snd ?X)"
    using example_three_ok by (simp add: prod_eq_iff)
  have found: "find (\<lambda>d. d_id d = 1) (deployment_table example_session) = Some example_deployment"
    by (simp add: example_session_def example_deployment_def)
  from example_three_ids have ne: "?rs \<noteq> []" by auto
  then have r: "hd ?rs \<in> set ?rs" by (rule hd_in_set)
  from built_run_copies_deployment [OF example_session_fresh found result r] example_three_ids
  show ?thesis by (simp add: example_deployment_def)
qed

lemma stored_keys_persisted:
  "stored_keys (persisted s A) = stored_keys s @ map r_idempotency_key A"
proof -
  have "map (\<lambda>row. r_idempotency_key (row_run row)) (map linked_row (zip A U)) =
        map r_idempotency_key A" if "length U = length A" for U
    using that by (induction A U rule: list_induct2') (simp_all add: linked_row_def)
  then show ?thesis by (simp add: stored_keys_def persisted_def)
qed

lemma uuids_fresh_persisted:
  assumes fresh: "uuids_fresh s"
    and sub: "set A \<subseteq> set (candidates e d f did (uuid4_next s) dates)"
  shows "uuids_fresh (persisted ((log_statement GetDeployment s)
           \<lparr>uuid4_next := uuid4_next s + length dates\<rparr>) A)"
proof -
  let ?u = "uuid4_next s"
  let ?n = "length dates"
  let ?U = "[?u + ?n ..< ?u + ?n + length A]"
  from fresh have T: "\<forall>row \<in> set (flow_run_table s). r_id (row_run row) < ?u"
    and S: "\<forall>st \<in> set (flow_run_state_table s). s_id st < ?u \<and> s_flow_run_id st < ?u"
    by (simp_all add: uuids_fresh_def list_all_iff)
  have A: "r_id r < ?u + ?n" if "r \<in> set A" for r
  proof -
    from that sub have "r_id r \<in> set (map r_id (candidates e d f did ?u dates))" by auto
    then show ?thesis by (simp only: candidates_ids) simp
  qed
  have newT: "r_id (row_run row) < ?u + ?n + length A"
    if "row \<in> set (map linked_row (zip A ?U))" for row
  proof -
    from that obtain r v where "(r, v) \<in> set (zip A ?U)" and row: "row = linked_row (r, v)"
      by auto
    then have "r \<in> set A" by (auto dest: set_zip_leftD)
    from A [OF this] show ?thesis by (simp add: row linked_row_def)
  qed
  have newS: "s_id st < ?u + ?n + length A \<and> s_flow_run_id st < ?u + ?n + length A"
    if "st \<in> set (map state_row (zip A ?U))" for st
  proof -
    from that obtain r v where rv: "(r, v) \<in> set (zip A ?U)" and st: "st = state_row (r, v)"
      by auto
    then have "r \<in> set A" and "v \<in> set ?U" by (auto dest: set_zip_leftD set_zip_rightD)
    with A [of r] show ?thesis by (simp add: st state_row_def)
  qed
  have oldT: "\<forall>row \<in> set (flow_run_table s). r_id (row_run row) < ?u + ?n + length A"
    using T by fastforce
  have oldS: "\<forall>st \<in> set (flow_run_state_table s).
                s_id st < ?u + ?n + length A \<and> s_flow_run_id st < ?u + ?n + length A"
    using S by fastforce
  show ?thesis
    unfolding uuids_fresh_def list_all_iff
    using oldT oldS newT newS
    by (simp add: persisted_def log_statement_def ball_Un)
qed

lemma dates_of_clock:
  "start_time = None \<longrightarrow> later = now_utc e \<Longrightarrow>
   dates_of (e\<lparr>now_utc := later\<rparr>) d start_time end_time max_runs =
   dates_of e d start_time end_time max_runs"
  by (cases start_time)
    (simp_all add: dates_of_def start_of_def end_of_def max_runs_of_def split: option.splits)

text \<open>
  Claim C1, amended. For a deployment with an active schedule and a \<open>flow_id\<close>, in a
  session whose ids were all generated earlier, two calls of \<open>schedule_runs\<close> in
  sequence with the same arguments and the same window (a start time is given, or the
  clock reads the same) succeed; the second returns the empty list, and the first returns
  a non-empty list exactly when the schedule yields, for the window, a date whose
  idempotency key is not stored yet.
\<close>

theorem schedule_runs_twice:
  assumes fresh: "uuids_fresh s"
    and found: "find (\<lambda>d. d_id d = deployment_id) (deployment_table s) = Some d"
    and sched: "d_schedule d \<noteq> None" and active: "d_is_schedule_active d"
    and flow: "d_flow_id d \<noteq> None"
    and clock: "start_time = None \<longrightarrow> later = now_utc e"
    and first: "schedule_runs e s deployment_id start_time end_time max_runs = (r1, s1)"
    and second: "schedule_runs (e\<lparr>now_utc := later\<rparr>) s1 deployment_id start_time end_time
                   max_runs = (r2, s2)"
  shows "\<exists>rs. r1 = Inr rs \<and>
           (rs \<noteq> [] \<longleftrightarrow>
              (\<exists>date \<in> set (dates_of e d start_time end_time max_runs).
                 idempotency_key e d date \<notin> set (stored_keys s))) \<and>
           r2 = Inr []"
proof -
  from sched obtain sc where sc: "d_schedule d = Some sc" by auto
  from flow obtain f where f: "d_flow_id d = Some f" by auto
  let ?e2 = "e\<lparr>now_utc := later\<rparr>"
  let ?dates = "dates_of e d start_time end_time max_runs"
  let ?u = "uuid4_next s"
  let ?runs = "candidates e d f deployment_id ?u ?dates"
  let ?A = "accepted (stored_keys s) ?runs"
  let ?g = "(log_statement GetDeployment s)\<lparr>uuid4_next := ?u + length ?dates\<rparr>"
  from schedule_runs_active [OF found sc active f fresh, of e start_time end_time max_runs] first
  have r1: "r1 = Inr ?A" and s1: "s1 = (if ?dates = [] then ?g else persisted ?g ?A)"
    by (simp_all add: Let_def)
  have nonempty: "?A \<noteq> [] \<longleftrightarrow>
      (\<exists>date \<in> set ?dates. idempotency_key e d date \<notin> set (stored_keys s))"
    unfolding accepted_Nil_iff candidates_keys by auto
  have sub: "set ?A \<subseteq> set ?runs" by (rule accepted_subset)
  have fresh1: "uuids_fresh s1"
  proof (cases "?dates = []")
    case True
    with fresh show ?thesis by (simp add: s1 uuids_fresh_def log_statement_def)
  next
    case False
    with uuids_fresh_persisted [OF fresh sub] show ?thesis by (simp add: s1)
  qed
  have found1: "find (\<lambda>d. d_id d = deployment_id) (deployment_table s1) = Some d"
    using found by (simp add: s1 persisted_def log_statement_def)
  have dates2: "dates_of ?e2 d start_time end_time max_runs = ?dates"
    using clock by (rule dates_of_clock)
  have keys2: "map r_idempotency_key (candidates ?e2 d f deployment_id (uuid4_next s1) ?dates) =
               map r_idempotency_key ?runs"
    by (simp add: candidates_keys idempotency_key_def cong: map_cong)
  have stored: "set (map r_idempotency_key ?runs) \<subseteq> set (stored_keys s1)"
  proof (cases "?dates = []")
    case True
    then show ?thesis by (simp add: candidates_def)
  next
    case False
    have "stored_keys s1 = stored_keys s @ map r_idempotency_key ?A"
      using False by (simp add: s1 stored_keys_persisted) (simp add: stored_keys_def log_statement_def)
    then have "set (stored_keys s1) = set (stored_keys s) \<union> set (map r_idempotency_key ?A)"
      by simp
    also have "\<dots> = set (stored_keys s) \<union> set (map r_idempotency_key ?runs)"
      by (rule accepted_keys)
    finally show ?thesis by blast
  qed
  have "accepted (stored_keys s1) (candidates ?e2 d f deployment_id (uuid4_next s1) ?dates) = []"
    unfolding accepted_Nil_iff keys2 by (rule stored)
  with schedule_runs_active [OF found1 sc active f fresh1, of ?e2 start_time end_time max_runs]
    second
  have r2: "r2 = Inr []" by (simp add: Let_def dates2)
  from r1 nonempty r2 show ?thesis by blast
qed

text \<open>The example, called twice over the window from 0 to 3, the clock having moved.\<close>

theorem schedule_runs_twice_witness:
  "map r_id (projr (fst (schedule_runs example_env example_session 1 (Some 0) (Some 3) (Some 10))))
     = [2, 3, 4] \<and>
   fst (schedule_runs (example_env\<lparr>now_utc := 5\<rparr>)
          (snd (schedule_runs example_env example_session 1 (Some 0) (Some 3) (Some 10)))
          1 (Some 0) (Some 3) (Some 10)) = Inr []"
proof -
  let ?X = "schedule_runs example_env example_session 1 (Some 0) (Some 3) (Some 10)"
  let ?Y = "schedule_runs (example_env\<lparr>now_utc := 5\<rparr>) (snd ?X) 1 (Some 0) (Some 3) (Some 10)"
  have found: "find (\<lambda>d. d_id d = 1) (deployment_table example_session) = Some example_deployment"
    by (simp add: example_session_def example_deployment_def)
  have sched: "d_schedule example_deployment \<noteq> None"
    and active: "d_is_schedule_active example_deployment"
    and flow: "d_flow_id example_deployment \<noteq> None"
    by (simp_all add: example_deployment_def)
  have clock: "Some (0::int) = None \<longrightarrow> (5::int) = now_utc example_env" by simp
  have first: "?X = (fst ?X, snd ?X)" and second: "?Y = (fst ?Y, snd ?Y)" by simp_all
  from schedule_runs_twice [OF example_session_fresh found sched active flow clock first second]
    example_three_ids
  show ?thesis by blast
qed

text \<open>
  Claim C1 as stated fails: the deployment of the example has an active schedule, and
  the first call over the window from 5 to 8, in which the schedule has no date,
  returns the empty list.
\<close>

theorem schedule_runs_first_call_empty:
  "d_is_schedule_active example_deployment \<and> d_schedule example_deployment \<noteq> None \<and>
   find (\<lambda>d. d_id d = 1) (deployment_table example_session) = Some example_deployment \<and>
   schedule_runs example_env example_session 1 (Some 5) (Some 8) (Some 10) =
     (Inr [], example_session\<lparr>executed := [GetDeployment]\<rparr>)"
  by (simp add: schedule_runs_def generate_scheduled_flow_runs_def session_get_def
      insert_scheduled_flow_runs_def log_statement_def example_session_def
      example_deployment_def example_schedule_def)

lemma on_conflict_do_nothing_Inr:
  "on_conflict_do_nothing table runs = Inr table' \<Longrightarrow>
   table' = table @ map (\<lambda>r. \<lparr>row_run = r, row_state_id = None\<rparr>)
                      (accepted (map (\<lambda>row. r_idempotency_key (row_run row)) table) runs)"
proof (induction runs arbitrary: table)
  case Nil
  then show ?case by simp
next
  case (Cons r rs)
  let ?hit = "list_ex (\<lambda>row. flow_run_unique_upsert_columns (row_run row) =
                         flow_run_unique_upsert_columns r) table"
  have hit: "?hit \<longleftrightarrow> r_idempotency_key r \<in> set (map (\<lambda>row. r_idempotency_key (row_run row)) table)"
    unfolding list_ex_iff flow_run_unique_upsert_columns_def set_map image_iff
    by (rule bex_cong) (simp_all add: eq_commute)
  show ?case
  proof (cases ?hit)
    case True
    with Cons.prems have "on_conflict_do_nothing table rs = Inr table'" by simp
    from Cons.IH [OF this] True hit show ?thesis by simp
  next
    case False
    with Cons.prems have
      "on_conflict_do_nothing (table @ [\<lparr>row_run = r, row_state_id = None\<rparr>]) rs = Inr table'"
      by (simp split: if_splits)
    from Cons.IH [OF this] False hit show ?thesis by simp
  qed
qed

lemma list_ex_flow_run_id:
  "list_ex (\<lambda>st. s_flow_run_id st = y) sts \<longleftrightarrow> y \<in> set (map s_flow_run_id sts)"
  by (induction sts) auto

lemma inserted_rows_member:
  "x \<in> set (inserted_rows s runs) \<longleftrightarrow>
     x \<in> set (map (\<lambda>row. r_id (row_run row)) (flow_run_table s)) \<and>
     x \<in> set (map r_id runs) \<and>
     x \<notin> set (map s_flow_run_id (flow_run_state_table s))"
proof -
  have "x \<in> set (map f (filter P rows)) \<longleftrightarrow> x \<in> set (map f rows) \<and> Q x"
    if "\<And>row. P row \<longleftrightarrow> Q (f row)" for f :: "FlowRun_row \<Rightarrow> nat" and P Q rows
    using that by (induction rows) auto
  then show ?thesis
    unfolding inserted_rows_def by (simp only: list_ex_flow_run_id)
qed

lemma map_key_linked_row:
  "length U = length A \<Longrightarrow>
   map (\<lambda>row. r_idempotency_key (row_run row)) (map linked_row (zip A U)) =
   map r_idempotency_key A"
  by (induction A U rule: list_induct2') (simp_all add: linked_row_def)

lemma stored_keys_append:
  "flow_run_table s' = flow_run_table s @ rows \<Longrightarrow>
   stored_keys s' = stored_keys s @ map (\<lambda>row. r_idempotency_key (row_run row)) rows"
  by (simp add: stored_keys_def)

lemma accepted_first_of_key:
  "distinct (map r_id runs) \<Longrightarrow>
   accepted ks runs =
     filter (\<lambda>r. r_idempotency_key r \<notin> set ks \<and>
                 find (\<lambda>x. r_idempotency_key x = r_idempotency_key r) runs = Some r) runs"
proof (induction runs arbitrary: ks)
  case Nil
  then show ?case by simp
next
  case (Cons a rs)
  let ?k = r_idempotency_key
  have d: "distinct (map r_id rs)" using Cons.prems by simp
  have neq: "x \<noteq> a" if "x \<in> set rs" for x
    using Cons.prems that by (auto simp: image_iff)
  show ?case
  proof (cases "?k a \<in> set ks")
    case True
    have "filter (\<lambda>r. ?k r \<notin> set ks \<and> find (\<lambda>x. ?k x = ?k r) (a # rs) = Some r) rs =
          filter (\<lambda>r. ?k r \<notin> set ks \<and> find (\<lambda>x. ?k x = ?k r) rs = Some r) rs"
      using True by (intro filter_cong refl) auto
    with True Cons.IH [OF d, of ks] show ?thesis by simp
  next
    case False
    have "filter (\<lambda>r. ?k r \<notin> set ks \<and> find (\<lambda>x. ?k x = ?k r) (a # rs) = Some r) rs =
          filter (\<lambda>r. ?k r \<notin> set (ks @ [?k a]) \<and> find (\<lambda>x. ?k x = ?k r) rs = Some r) rs"
      using neq by (intro filter_cong refl) auto
    with False Cons.IH [OF d, of "ks @ [?k a]"] show ?thesis by simp
  qed
qed

text \<open>
  Claim C2, amended. Whenever \<open>_insert_scheduled_flow_runs\<close> returns, it returns
  exactly the candidates whose id is, after the conflict-ignoring insert, the id of a
  stored run (stored before, or added by the insert as the first candidate of a key not
  yet stored) and is referenced by no stored state. When the ids of the candidates are
  freshly generated, it does return, and what it returns is exactly the first candidate
  of each idempotency key that was not stored before, so that no candidate whose key
  collided with a stored run is returned; these runs, each linked to a new state row of
  its own, are all that is added to the two tables; idempotency keys that were stored
  once each are still stored once each, and the keys stored afterwards are those stored
  before and those of the candidates.
\<close>

theorem persister_returns_new_candidates:
  assumes result: "insert_scheduled_flow_runs s runs = (result, s')"
  shows "(\<forall>res. result = Inr res \<longrightarrow>
            res = filter
              (\<lambda>r. (r_id r \<in> set (map (\<lambda>row. r_id (row_run row)) (flow_run_table s)) \<or>
                     r_id r \<in> set (map r_id (accepted (stored_keys s) runs))) \<and>
                    r_id r \<notin> set (map s_flow_run_id (flow_run_state_table s))) runs) \<and>
         (candidates_fresh s runs \<longrightarrow>
            (\<exists>res. result = Inr res \<and>
               res = filter
                 (\<lambda>r. r_idempotency_key r \<notin> set (stored_keys s) \<and>
                       find (\<lambda>x. r_idempotency_key x = r_idempotency_key r) runs = Some r) runs \<and>
               (\<forall>r \<in> set runs. r_idempotency_key r \<in> set (stored_keys s) \<longrightarrow> r \<notin> set res) \<and>
               flow_run_table s' = flow_run_table s @
                 map linked_row (zip res [uuid4_next s ..< uuid4_next s + length res]) \<and>
               flow_run_state_table s' = flow_run_state_table s @
                 map state_row (zip res [uuid4_next s ..< uuid4_next s + length res]) \<and>
               (distinct (stored_keys s) \<longrightarrow> distinct (stored_keys s')) \<and>
               set (stored_keys s') = set (stored_keys s) \<union> set (map r_idempotency_key runs)))"
proof (intro conjI allI impI)
  fix res assume "result = Inr res"
  with result have "insert_scheduled_flow_runs s runs = (Inr res, s')" by simp
  from insert_result_probe [OF this] obtain table where
    ins: "on_conflict_do_nothing (flow_run_table s) runs = Inr table"
    and res: "res = filter (\<lambda>r. r_id r \<in> set (inserted_rows (s\<lparr>flow_run_table := table\<rparr>) runs))
                      runs"
    by blast
  have table: "map (\<lambda>row. r_id (row_run row)) table =
      map (\<lambda>row. r_id (row_run row)) (flow_run_table s) @
      map r_id (accepted (stored_keys s) runs)"
    unfolding on_conflict_do_nothing_Inr [OF ins] stored_keys_def by (simp add: comp_def)
  show "res = filter
      (\<lambda>r. (r_id r \<in> set (map (\<lambda>row. r_id (row_run row)) (flow_run_table s)) \<or>
             r_id r \<in> set (map r_id (accepted (stored_keys s) runs))) \<and>
            r_id r \<notin> set (map s_flow_run_id (flow_run_state_table s))) runs"
    unfolding res inserted_rows_member
    by (rule filter_cong [OF refl]) (simp add: table)
next
  assume fresh: "candidates_fresh s runs"
  let ?A = "accepted (stored_keys s) runs"
  let ?U = "[uuid4_next s ..< uuid4_next s + length ?A]"
  from fresh have d: "distinct (map r_id runs)" by (simp add: candidates_fresh_def)
  have eq: "result = Inr ?A \<and>
            flow_run_table s' = flow_run_table s @ map linked_row (zip ?A ?U) \<and>
            flow_run_state_table s' = flow_run_state_table s @ map state_row (zip ?A ?U)"
  proof (cases "runs = []")
    case True
    with result show ?thesis by (simp add: insert_scheduled_flow_runs_def)
  next
    case False
    from insert_scheduled_flow_runs_fresh [OF fresh False] result
    have "result = Inr ?A" and "s' = persisted s ?A" by simp_all
    then show ?thesis by (simp add: persisted_def)
  qed
  have keys: "stored_keys s' = stored_keys s @ map r_idempotency_key ?A"
  proof -
    have m: "map (\<lambda>row. r_idempotency_key (row_run row)) (map linked_row (zip ?A ?U)) =
             map r_idempotency_key ?A"
      by (rule map_key_linked_row) simp
    from eq have tab: "flow_run_table s' = flow_run_table s @ map linked_row (zip ?A ?U)"
      by blast
    show ?thesis by (simp only: stored_keys_append [OF tab] m)
  qed
  have first: "?A = filter
      (\<lambda>r. r_idempotency_key r \<notin> set (stored_keys s) \<and>
            find (\<lambda>x. r_idempotency_key x = r_idempotency_key r) runs = Some r) runs"
    using d by (rule accepted_first_of_key)
  have excl: "\<forall>r \<in> set runs. r_idempotency_key r \<in> set (stored_keys s) \<longrightarrow> r \<notin> set ?A"
    using accepted_new_keys by blast
  have once: "distinct (stored_keys s')" if "distinct (stored_keys s)"
  proof -
    have "set (stored_keys s) \<inter> set (map r_idempotency_key ?A) = {}"
      using accepted_new_keys [of _ "stored_keys s" runs] by auto
    with that accepted_keys_distinct [of "stored_keys s" runs] show ?thesis
      by (simp add: keys)
  qed
  have all: "set (stored_keys s') = set (stored_keys s) \<union> set (map r_idempotency_key runs)"
    using accepted_keys [of "stored_keys s" runs] by (simp add: keys)
  show "\<exists>res. result = Inr res \<and>
      res = filter
        (\<lambda>r. r_idempotency_key r \<notin> set (stored_keys s) \<and>
              find (\<lambda>x. r_idempotency_key x = r_idempotency_key r) runs = Some r) runs \<and>
      (\<forall>r \<in> set runs. r_idempotency_key r \<in> set (stored_keys s) \<longrightarrow> r \<notin> set res) \<and>
      flow_run_table s' = flow_run_table s @
        map linked_row (zip res [uuid4_next s ..< uuid4_next s + length res]) \<and>
      flow_run_state_table s' = flow_run_state_table s @
        map state_row (zip res [uuid4_next s ..< uuid4_next s + length res]) \<and>
      (distinct (stored_keys s) \<longrightarrow> distinct (stored_keys s')) \<and>
      set (stored_keys s') = set (stored_keys s) \<union> set (map r_idempotency_key runs)"
  proof (rule exI [of _ ?A], intro conjI)
    show "result = Inr ?A" using eq by blast
    show "?A = filter
        (\<lambda>r. r_idempotency_key r \<notin> set (stored_keys s) \<and>
              find (\<lambda>x. r_idempotency_key x = r_idempotency_key r) runs = Some r) runs"
      by (rule first)
    show "\<forall>r \<in> set runs. r_idempotency_key r \<in> set (stored_keys s) \<longrightarrow> r \<notin> set ?A"
      by (rule excl)
    show "flow_run_table s' = flow_run_table s @ map linked_row (zip ?A ?U)"
      using eq by blast
    show "flow_run_state_table s' = flow_run_state_table s @ map state_row (zip ?A ?U)"
      using eq by blast
    show "distinct (stored_keys s) \<longrightarrow> distinct (stored_keys s')"
      using once by simp
    show "set (stored_keys s') = set (stored_keys s) \<union> set (map r_idempotency_key runs)"
      by (rule all)
  qed
qed

lemma example_overlap_candidates:
  "map r_expected_start_time (projr (fst example_overlap)) = [1, 2]"
  by code_simp

lemma example_overlap_fresh:
  "candidates_fresh (snd example_overlap) (projr (fst example_overlap))"
  by code_simp

lemma example_overlap_distinct: "distinct (stored_keys (snd example_overlap))"
  by code_simp

lemma example_overlap_result:
  "map r_expected_start_time
     (projr (fst (insert_scheduled_flow_runs (snd example_overlap) (projr (fst example_overlap)))))
     = [2]"
  by code_simp

text \<open>
  The overlapping window of the example: of the candidates of the dates 1 and 2, only
  the one of the date 2 is returned.
\<close>

theorem persister_returns_new_candidates_witness:
  "map r_expected_start_time (projr (fst example_overlap)) = [1, 2] \<and>
   map r_expected_start_time
     (projr (fst (insert_scheduled_flow_runs (snd example_overlap) (projr (fst example_overlap)))))
     = [2] \<and>
   projr (fst (insert_scheduled_flow_runs (snd example_overlap) (projr (fst example_overlap)))) =
     filter (\<lambda>r. r_idempotency_key r \<notin> set (stored_keys (snd example_overlap)) \<and>
                 find (\<lambda>x. r_idempotency_key x = r_idempotency_key r)
                   (projr (fst example_overlap)) = Some r)
       (projr (fst example_overlap)) \<and>
   distinct (stored_keys
     (snd (insert_scheduled_flow_runs (snd example_overlap) (projr (fst example_overlap)))))"
proof -
  let ?Z = "insert_scheduled_flow_runs (snd example_overlap) (projr (fst example_overlap))"
  have result: "?Z = (fst ?Z, snd ?Z)" by simp
  from persister_returns_new_candidates [OF result] example_overlap_fresh
  obtain res where res: "fst ?Z = Inr res"
    and first: "res = filter (\<lambda>r. r_idempotency_key r \<notin> set (stored_keys (snd example_overlap)) \<and>
                 find (\<lambda>x. r_idempotency_key x = r_idempotency_key r)
                   (projr (fst example_overlap)) = Some r)
       (projr (fst example_overlap))"
    and once: "distinct (stored_keys (snd example_overlap)) \<longrightarrow> distinct (stored_keys (snd ?Z))"
    by blast
  from res have "projr (fst ?Z) = res" by simp
  with first once example_overlap_distinct example_overlap_candidates example_overlap_result
  show ?thesis by simp
qed

text \<open>
  Claim C2 as stated fails for candidates that are stored without a state: the keys of
  all three candidates collide with stored runs, and all three are returned.
\<close>

theorem persister_returns_stored_stateless_candidates:
  "map r_id (projr (fst example_generated)) = [2, 3, 4] \<and>
   list_all (\<lambda>r. r_idempotency_key r \<in> set (stored_keys example_stored_stateless))
     (projr (fst example_generated)) \<and>
   map r_id (projr (fst (insert_scheduled_flow_runs example_stored_stateless
     (projr (fst example_generated))))) = [2, 3, 4]"
  by code_simp

end
